theory Spec2Isabelle
  imports Complex_Main
begin

section \<open>JavaScript values and errors\<close>

text \<open>
  The sources are JavaScript. Exceptions are values: a call either throws or returns.
  Numbers that are used as array indices are integers; weights, times and random draws are
  real numbers, and so are gains and durations unless they are \<open>NaN\<close>.
\<close>

datatype jserror = TypeError | Error string

datatype 'a outcome = Throws jserror | Returns 'a

text \<open>
  \<open>SonicUtils\<close> is written as \<open>(function (undefined) { ... })(jQuery || Zepto)\<close>: within
  it the name \<open>undefined\<close> is the parameter of that function and stands for the jQuery or
  Zepto object the function is called with, here called the library object. So
  \<open>x === undefined\<close> compares \<open>x\<close> with the library object and \<open>return undefined\<close>
  returns it. The other files take \<open>undefined\<close> as a parameter that no argument is passed
  for, where it is the undefined value.
\<close>

text \<open>
  The values that \<open>section_set\<close> and \<open>section\<close> take: \<open>null\<close>, the undefined value,
  \<open>NaN\<close>, an integer, or the library object.
\<close>

datatype jsval = JNull | JUndefined | JNaN | JNum int | JLibrary

text \<open>
  A gain or a duration: a real number or \<open>NaN\<close>. Arithmetic and \<open>Math.abs\<close> yield
  \<open>NaN\<close> when an operand is \<open>NaN\<close>, and a comparison with \<open>NaN\<close> is false.
\<close>

datatype number = NotANumber | Number real

fun num_mul :: "number \<Rightarrow> number \<Rightarrow> number" where
  "num_mul (Number a) (Number b) = Number (a * b)"
| "num_mul _ _ = NotANumber"

fun num_sub :: "number \<Rightarrow> number \<Rightarrow> number" where
  "num_sub (Number a) (Number b) = Number (a - b)"
| "num_sub _ _ = NotANumber"

fun num_abs :: "number \<Rightarrow> number" where
  "num_abs (Number a) = Number \<bar>a\<bar>"
| "num_abs NotANumber = NotANumber"

fun num_less :: "number \<Rightarrow> number \<Rightarrow> bool" where
  "num_less (Number a) (Number b) = (a < b)"
| "num_less _ _ = False"

text \<open>
  What a caller passes for an argument or a field of an argument object that is meant to
  hold a value of type \<open>'a\<close>: nothing (the field is undefined), \<open>null\<close>, the library
  object, or a value. Used as a number, undefined and the library object (a function) are
  \<open>NaN\<close> and \<open>null\<close> is \<open>0\<close>.
\<close>

datatype 'a argument = Missing | Null | LibraryObject | Given 'a

fun to_num :: "number argument \<Rightarrow> number" where
  "to_num Missing = NotANumber"
| "to_num Null = Number 0"
| "to_num LibraryObject = NotANumber"
| "to_num (Given n) = n"

datatype playstate = Stopped | Playing | Paused

section \<open>Tracks\<close>

text \<open>
  Modelled from the spec: the Track capability (the Howl objects of the modified howler.js,
  which is not among the sources). A Track is an audio handle with a play state, a scalar
  gain, a mute flag, a duration, a fading flag read by \<open>isFading()\<close>, one-shot timers
  registered with \<open>timer(msec, name)\<close> and handlers bound with \<open>ion(event, fn)\<close>.
\<close>

datatype tcallback = CallNext | SectionEnded jsval | FinaleWarning

record track =
  tstate :: playstate
  tgain :: real
  tmuted :: bool
  tfading :: bool
  tduration :: real
  ttimers :: "(real \<times> string) list"
  thandlers :: "(string \<times> tcallback) list"

definition track_stop :: "track \<Rightarrow> track" where
  "track_stop t = t\<lparr>tstate := Stopped\<rparr>"

definition track_play :: "track \<Rightarrow> track" where
  "track_play t = t\<lparr>tstate := Playing\<rparr>"

definition track_pause :: "track \<Rightarrow> track" where
  "track_pause t = t\<lparr>tstate := Paused\<rparr>"

definition track_mute :: "track \<Rightarrow> track" where
  "track_mute t = t\<lparr>tmuted := True\<rparr>"

definition track_unmute :: "track \<Rightarrow> track" where
  "track_unmute t = t\<lparr>tmuted := False\<rparr>"

definition track_volume :: "real \<Rightarrow> track \<Rightarrow> track" where
  "track_volume v t = t\<lparr>tgain := v\<rparr>"

text \<open>
  Modelled from the spec: the gain of a Track is a scalar; \<open>volume(v)\<close> with \<open>NaN\<close>
  leaves it as it is.
\<close>

fun track_volume_value :: "number \<Rightarrow> track \<Rightarrow> track" where
  "track_volume_value (Number v) t = track_volume v t"
| "track_volume_value NotANumber t = t"

definition track_isFading :: "track \<Rightarrow> bool" where
  "track_isFading t = tfading t"

definition track_duration :: "track \<Rightarrow> real" where
  "track_duration t = tduration t"

definition track_timer :: "real \<Rightarrow> string \<Rightarrow> track \<Rightarrow> track" where
  "track_timer msec name t = t\<lparr>ttimers := ttimers t @ [(msec, name)]\<rparr>"

definition track_off :: "string \<Rightarrow> track \<Rightarrow> track" where
  "track_off action t = t\<lparr>thandlers := filter (\<lambda>(a, fn). a \<noteq> action) (thandlers t)\<rparr>"

definition track_on :: "string \<Rightarrow> tcallback \<Rightarrow> track \<Rightarrow> track" where
  "track_on action fn t = t\<lparr>thandlers := thandlers t @ [(action, fn)]\<rparr>"

definition track_ion :: "string \<Rightarrow> tcallback \<Rightarrow> track \<Rightarrow> track" where
  "track_ion action fn t = track_on action fn (track_off action t)"

section \<open>The Shuffle object\<close>

text \<open>
  The fields of \<open>Music.SonicShuffle\<close>. The object \<open>_fading\<close> is \<open>{}\<close> or carries a
  priority and a promise; the promise is a reference into the heap of deferreds. The field
  \<open>section\<close> is named \<open>section_pos\<close> and the field \<open>end\<close> is named \<open>end_scope\<close>.
\<close>

record shuffle =
  gain :: number
  intro :: "track option"
  sections :: "track list list"
  section_states :: "bool list list"
  muted :: bool
  has_overlaps :: bool
  finale :: "real option"
  section_set :: jsval
  section_pos :: jsval
  state :: playstate
  fading_priority :: "int option"
  fading_promise :: "nat option"
  end_stop :: bool
  end_scope :: string

section \<open>The visitation grid\<close>

text \<open>
  \<open>b.reduce(or)\<close> has no initial value: on an empty array JavaScript throws a TypeError,
  otherwise it folds from the first element.
\<close>

fun reduce_or :: "bool list \<Rightarrow> jserror + bool" where
  "reduce_or [] = Inl TypeError"
| "reduce_or (x # xs) = Inr (foldl (\<lambda>x y. x \<or> y) x xs)"

text \<open>
  \<open>visitgraph.reduce(function (a, b) { return a && b.reduce(or) }, true)\<close>: the operator
  \<open>&&\<close> does not evaluate \<open>b.reduce(or)\<close> once \<open>a\<close> is false, and an exception thrown in
  the callback ends the whole reduction.
\<close>

definition cycleExists :: "bool list list \<Rightarrow> jserror + bool" where
  "cycleExists visitgraph =
     foldl (\<lambda>a b. case a of Inl e \<Rightarrow> Inl e
                 | Inr av \<Rightarrow> if av then reduce_or b else Inr False)
       (Inr True) visitgraph"

definition resetSectionsPlayed :: "track list list \<Rightarrow> bool list list" where
  "resetSectionsPlayed secs = map (\<lambda>sectionset. map (\<lambda>section. True) sectionset) secs"

text \<open>Strict equality \<open>===\<close> of a field with a number.\<close>

fun strict_eq_num :: "jsval \<Rightarrow> int \<Rightarrow> bool" where
  "strict_eq_num (JNum k) n = (k = n)"
| "strict_eq_num _ n = False"

definition isLastSection :: "shuffle \<Rightarrow> jserror + bool" where
  "isLastSection s =
     (if end_scope s = ''section'' then Inr True
      else if end_scope s = ''cycle'' then
        Inr (strict_eq_num (section_set s) (int (length (sections s)) - 1))
      else if end_scope s = ''fullcycle'' then
        (if strict_eq_num (section_set s) (int (length (sections s)) - 1)
         then (case cycleExists (section_states s) of
                 Inl e \<Rightarrow> Inl e
               | Inr c \<Rightarrow> Inr (\<not> c))
         else Inr False)
      else Inr False)"

section \<open>Events and listeners\<close>

text \<open>
  The events a Shuffle fires with \<open>trigger\<close>. The callbacks registered with \<open>on\<close>,
  \<open>ion\<close> and \<open>one\<close> are closures of the caller; what they do to the Shuffle when an
  event fires is the parameter \<open>L\<close>, a function on the Shuffle for every event. Firing an
  event is running its listeners; listeners that throw are not modelled.
\<close>

datatype event =
    EvPlay | EvPause | EvStop | EvMute bool | EvVolume number
  | EvSectionBegin jsval jsval | EvSectionEnd
  | EvCycleBegin | EvCycleEnd | EvFullcycle | EvFinale | EvEnd

type_synonym listeners = "event \<Rightarrow> shuffle \<Rightarrow> shuffle"

definition no_listeners :: listeners where
  "no_listeners ev s = s"

definition trigger :: "listeners \<Rightarrow> event \<Rightarrow> shuffle \<Rightarrow> shuffle" where
  "trigger L ev s = L ev s"

section \<open>Iterating over the owned tracks\<close>

text \<open>
  \<open>forEachSection(fn)\<close> calls \<open>fn(track, sectionset, section)\<close> on the intro, if there
  is one, with indices \<open>-1\<close> and \<open>0\<close>, and then on every section in index order. The
  callbacks of this file mutate the track they are given.
\<close>

function for_sections :: "(track \<Rightarrow> int \<Rightarrow> int \<Rightarrow> track) \<Rightarrow> nat \<Rightarrow> nat \<Rightarrow> track list \<Rightarrow> track list" where
  "for_sections fn sectionset j row =
     (if j < length row
      then for_sections fn sectionset (Suc j) (row[j := fn (row ! j) (int sectionset) (int j)])
      else row)"
  by pat_completeness auto
termination
  by (relation "measure (\<lambda>(fn, sectionset, j, row). length row - j)") auto

function for_sectionsets :: "(track \<Rightarrow> int \<Rightarrow> int \<Rightarrow> track) \<Rightarrow> nat \<Rightarrow> track list list \<Rightarrow> track list list" where
  "for_sectionsets fn i secs =
     (if i < length secs
      then for_sectionsets fn (Suc i) (secs[i := for_sections fn i 0 (secs ! i)])
      else secs)"
  by pat_completeness auto
termination
  by (relation "measure (\<lambda>(fn, i, secs). length secs - i)") auto

definition forEachSection :: "(track \<Rightarrow> int \<Rightarrow> int \<Rightarrow> track) \<Rightarrow> shuffle \<Rightarrow> shuffle" where
  "forEachSection fn s =
     (let s1 = (case intro s of
                  None \<Rightarrow> s
                | Some t \<Rightarrow> s\<lparr>intro := Some (fn t (- 1) 0)\<rparr>)
      in s1\<lparr>sections := for_sectionsets fn 0 (sections s1)\<rparr>)"

section \<open>Stop, mute and volume\<close>

definition stop :: "listeners \<Rightarrow> shuffle \<Rightarrow> shuffle" where
  "stop L s =
     (let s1 = s\<lparr>state := Stopped\<rparr>;
          s2 = forEachSection (\<lambda>section i j. track_stop section) s1;
          s3 = s2\<lparr>section_set := JNull\<rparr>;
          s4 = s3\<lparr>section_pos := JNull\<rparr>;
          s5 = s4\<lparr>section_states := resetSectionsPlayed (sections s4)\<rparr>
      in trigger L EvStop s5)"

definition mute :: "listeners \<Rightarrow> shuffle \<Rightarrow> shuffle" where
  "mute L s =
     (let s1 = s\<lparr>muted := True\<rparr>;
          s2 = forEachSection (\<lambda>section i j. track_mute section) s1
      in trigger L (EvMute True) s2)"

definition clamp :: "real \<Rightarrow> real \<Rightarrow> real \<Rightarrow> real" where
  "clamp v mn mx = max (min v mx) mn"

text \<open>
  \<open>SonicUtils.clamp\<close> on a value that may be \<open>NaN\<close>: \<open>Math.min\<close> and \<open>Math.max\<close>
  return \<open>NaN\<close> when an argument is \<open>NaN\<close>.
\<close>

fun clamp_number :: "number \<Rightarrow> real \<Rightarrow> real \<Rightarrow> number" where
  "clamp_number (Number v) mn mx = Number (clamp v mn mx)"
| "clamp_number NotANumber mn mx = NotANumber"

text \<open>
  \<open>SonicUtils.nvl(val, ifnull)\<close> is \<open>!(val === undefined || val === null) ? val : ifnull\<close>
  with \<open>undefined\<close> the library object: a value that is missing is returned as it is.
\<close>

definition nvl :: "'a argument \<Rightarrow> 'a argument \<Rightarrow> 'a argument" where
  "nvl val ifnull = (if \<not> (val = LibraryObject \<or> val = Null) then val else ifnull)"

text \<open>
  \<open>volume(vol)\<close>: without an argument (or with \<open>null\<close>) it is the getter and returns the
  gain; otherwise it returns \<open>this\<close>. The first component of the result is the number
  returned by the getter. The argument is a number or \<open>NaN\<close>, on which \<open>parseFloat\<close> is
  the identity.
\<close>

definition volume :: "listeners \<Rightarrow> number option \<Rightarrow> shuffle \<Rightarrow> number option \<times> shuffle" where
  "volume L vol s =
     (case vol of
        None \<Rightarrow> (Some (gain s), s)
      | Some v \<Rightarrow>
          (let v1 = clamp_number v 0 1;
               s1 = s\<lparr>gain := v1\<rparr>;
               s2 = trigger L (EvVolume v1) s1
           in if muted s2 then (None, mute L s2)
              else (None, forEachSection
                            (\<lambda>section i j. if track_isFading section then section
                                           else track_volume_value v1 section) s2)))"

definition unmute :: "listeners \<Rightarrow> shuffle \<Rightarrow> shuffle" where
  "unmute L s =
     (let s1 = s\<lparr>muted := False\<rparr>;
          s2 = forEachSection (\<lambda>section i j. track_unmute section) s1;
          s3 = snd (volume L (fst (volume L None s2)) s2)
      in trigger L (EvMute False) s3)"

section \<open>The track now playing\<close>

text \<open>
  \<open>nowPlaying()\<close> returns \<open>null\<close>, the intro, or \<open>sections[section_set][section]\<close>, which
  is the undefined value when the section index is not an index of the row and throws when
  there is no such row. What it returns is a reference to the track inside the Shuffle.
\<close>

datatype tref = NullRef | UndefinedRef | IntroRef | SectionRef nat nat

fun js_index :: "'a list \<Rightarrow> jsval \<Rightarrow> 'a option" where
  "js_index xs (JNum k) = (if 0 \<le> k \<and> nat k < length xs then Some (xs ! nat k) else None)"
| "js_index xs _ = None"

definition nowPlaying :: "shuffle \<Rightarrow> tref outcome" where
  "nowPlaying s =
     (if section_set s = JNull \<or> section_pos s = JNull then Returns NullRef
      else if strict_eq_num (section_set s) (- 1) then
        (case intro s of None \<Rightarrow> Returns NullRef | Some t \<Rightarrow> Returns IntroRef)
      else
        (case section_set s of
           JNum k \<Rightarrow>
             (case js_index (sections s) (JNum k) of
                None \<Rightarrow> Throws TypeError
              | Some row \<Rightarrow>
                  (case section_pos s of
                     JNum j \<Rightarrow>
                       (if 0 \<le> j \<and> nat j < length row then Returns (SectionRef (nat k) (nat j))
                        else Returns UndefinedRef)
                   | _ \<Rightarrow> Returns UndefinedRef))
         | _ \<Rightarrow> Throws TypeError))"

section \<open>Random choice\<close>

text \<open>
  Every call of \<open>Math.random()\<close> is a parameter: a draw \<open>r\<close> with \<open>0 \<le> r < 1\<close>.
  \<open>Math.round(x)\<close> is \<open>\<lfloor>x + 1/2\<rfloor>\<close>. For an empty array the three functions run
  \<open>return undefined\<close>, which in \<open>SonicUtils\<close> returns the library object. An index that
  is not one of the array reads the undefined value.
\<close>

definition js_round :: "real \<Rightarrow> int" where
  "js_round x = \<lfloor>x + 1 / 2\<rfloor>"

definition random_index :: "'a list \<Rightarrow> real \<Rightarrow> jsval" where
  "random_index array r =
     (if length array = 0 then JLibrary
      else JNum (js_round (r * (real (length array) - 1))))"

definition random_choice :: "int list \<Rightarrow> real \<Rightarrow> jsval" where
  "random_choice array r =
     (if length array = 0 then JLibrary
      else (case js_index array (random_index array r) of
              None \<Rightarrow> JUndefined
            | Some x \<Rightarrow> JNum x))"

text \<open>\<open>SonicUtils.sum\<close> adds the elements from the last index down to the first.\<close>

definition sum_js :: "real list \<Rightarrow> real" where
  "sum_js list = foldl (\<lambda>total x. total + x) 0 (rev list)"

text \<open>
  The loop of \<open>biased_random_index\<close>: \<open>i\<close> is the index of the head of the remaining
  weights and \<open>accumulation\<close> the running total before it.
\<close>

fun bias_walk :: "real list \<Rightarrow> real \<Rightarrow> real \<Rightarrow> nat \<Rightarrow> nat option" where
  "bias_walk [] accumulation magicnumber i = None"
| "bias_walk (w # ws) accumulation magicnumber i =
     (if accumulation + w \<ge> magicnumber then Some i
      else bias_walk ws (accumulation + w) magicnumber (Suc i))"

text \<open>
  \<open>r\<close> is the first draw of the call and \<open>r'\<close> the draw of the fallback that follows a
  loop that returned nothing.
\<close>

definition biased_random_index :: "real list \<Rightarrow> real \<Rightarrow> real \<Rightarrow> jsval" where
  "biased_random_index weights r r' =
     (if length weights = 0 then JLibrary
      else
        (let total = sum_js weights in
         if total = 0 then random_index weights r
         else
           (let magicnumber = r * total in
            case bias_walk weights 0 magicnumber 0 of
              Some i \<Rightarrow> JNum (int i)
            | None \<Rightarrow> random_index weights r')))"

section \<open>The successor state\<close>

fun to_number :: "jsval \<Rightarrow> int option" where
  "to_number JNull = Some 0"
| "to_number (JNum k) = Some k"
| "to_number JUndefined = None"
| "to_number JNaN = None"
| "to_number JLibrary = None"

text \<open>The remainder \<open>%\<close> takes the sign of the dividend and is \<open>NaN\<close> for a zero divisor.\<close>

definition js_rem :: "int \<Rightarrow> int \<Rightarrow> jsval" where
  "js_rem a n = (if n = 0 then JNaN else JNum (sgn a * (\<bar>a\<bar> mod \<bar>n\<bar>)))"

definition succ_set :: "jsval \<Rightarrow> nat \<Rightarrow> jsval" where
  "succ_set v len = (case to_number v of None \<Rightarrow> JNaN | Some k \<Rightarrow> js_rem (k + 1) (int len))"

text \<open>The indices of the true entries of a row, as the \<open>map\<close> and \<open>filter\<close> compute them.\<close>

definition possible :: "bool list \<Rightarrow> int list" where
  "possible row =
     map the (filter (\<lambda>x. x \<noteq> None)
       (map (\<lambda>(counter, b). if b then Some (int counter) else None) (enumerate 0 row)))"

text \<open>
  \<open>section_states[section_set][section] = false\<close>. The section is an element of
  \<open>possible\<close>, hence an index of the row, or it is the library object that
  \<open>random_choice\<close> returns for an empty array, and then the assignment sets a property
  named by that object and changes no entry.
\<close>

fun mark_visited :: "bool list list \<Rightarrow> jsval \<Rightarrow> jsval \<Rightarrow> bool list list" where
  "mark_visited grid (JNum k) (JNum j) =
     (if 0 \<le> k \<and> 0 \<le> j then grid[nat k := (grid ! nat k)[nat j := False]] else grid)"
| "mark_visited grid _ _ = grid"

definition moveToSucessorState :: "listeners \<Rightarrow> real \<Rightarrow> shuffle \<Rightarrow> tref outcome \<times> shuffle" where
  "moveToSucessorState L r s =
     (let s1 = s\<lparr>section_set := succ_set (section_set s) (length (sections s))\<rparr> in
      case (if strict_eq_num (section_set s1) 0
            then (case cycleExists (section_states s1) of
                    Inl e \<Rightarrow> Inl e
                  | Inr c \<Rightarrow> Inr (\<not> c))
            else Inr False) of
        Inl e \<Rightarrow> (Throws e, s1)
      | Inr broken \<Rightarrow>
          (let s2 = (if broken
                     then (let s' = trigger L EvFullcycle s1
                           in s'\<lparr>section_states := resetSectionsPlayed (sections s')\<rparr>)
                     else s1)
           in if state s2 \<noteq> Playing then (Returns NullRef, s2)
              else
                (case js_index (section_states s2) (section_set s2) of
                   None \<Rightarrow> (Throws TypeError, s2)
                 | Some row \<Rightarrow>
                     (let s3 = s2\<lparr>section_pos := random_choice (possible row) r\<rparr>;
                          s4 = s3\<lparr>section_states :=
                                  mark_visited (section_states s3) (section_set s3) (section_pos s3)\<rparr>
                      in (nowPlaying s4, s4)))))"

section \<open>The default easing of a fade\<close>

text \<open>
  \<open>vol = vol || 0\<close> turns \<open>undefined\<close> (and \<open>0\<close>) into \<open>0\<close>; the argument is \<open>None\<close>
  when it is \<open>undefined\<close>.
\<close>

definition gainToPerceptualVolume :: "real option \<Rightarrow> real outcome" where
  "gainToPerceptualVolume vol =
     (let vol1 = (case vol of None \<Rightarrow> 0 | Some v \<Rightarrow> if v = 0 then 0 else v)
      in Returns (0.01 * exp (4.605 * vol1)))"

text \<open>
  The function \<open>fade\<close> uses when \<open>args.easing\<close> is missing. Its local variable \<open>gain\<close> is
  hoisted, so the first statement reads it while it is still \<open>undefined\<close>.
\<close>

definition default_easing :: "real \<Rightarrow> real outcome" where
  "default_easing t =
     (let gain0 = None in
      case gainToPerceptualVolume gain0 of
        Throws e \<Rightarrow> Throws e
      | Returns gain1 \<Rightarrow>
          (let gain2 = 1 - cos (pi * t / 2)
           in Returns (clamp gain2 0 1)))"

section \<open>Deferreds, timers and the console\<close>

text \<open>
  Modelled from the spec: the jQuery-like deferred of \<open>zepto-deferred.js\<close>, which is not
  among the sources. A deferred is pending until it is resolved or rejected, once; settling
  it runs the callbacks registered for that outcome in the order of registration, and never
  throws. A callback added to a settled deferred runs at once when it is for that outcome.
  The callbacks are the closures that \<open>fade\<close> registers.
\<close>

datatype dstatus = Pending | Resolved | Rejected

datatype dcallback =
    DoneApplyVolume "number argument" real
  | AlwaysClearFading
  | AlwaysClearInterval nat

record deferred =
  dstate :: dstatus
  dcallbacks :: "dcallback list"

text \<open>
  The closure that \<open>fade\<close> hands to \<open>setInterval\<close>, given by the variables it holds:
  the promise it resolves, \<open>from\<close>, \<open>delta\<close>, \<open>msec\<close>, \<open>start\<close>, the value of the
  normalizer and the custom easing, if there is one. The timer runs it after \<open>fade\<close> has
  returned.
\<close>

record stepper =
  st_promise :: nat
  st_from :: "number argument"
  st_delta :: number
  st_msec :: "number argument"
  st_start :: real
  st_normalizer :: real
  st_easing :: "(real \<Rightarrow> real) option"

text \<open>
  What lives outside the Shuffle object: the heap of deferreds (a reference is an index),
  the live interval timers with their ids, and the lines written by \<open>console.log\<close>.
\<close>

record env =
  promises :: "deferred list"
  intervals :: "(nat \<times> stepper) list"
  next_timer :: nat
  console :: "string list"

definition new_deferred :: "env \<Rightarrow> nat \<times> env" where
  "new_deferred e =
     (length (promises e), e\<lparr>promises := promises e @ [\<lparr>dstate = Pending, dcallbacks = []\<rparr>]\<rparr>)"

definition setInterval :: "stepper \<Rightarrow> env \<Rightarrow> nat \<times> env" where
  "setInterval fn e =
     (next_timer e, e\<lparr>intervals := intervals e @ [(next_timer e, fn)],
                       next_timer := Suc (next_timer e)\<rparr>)"

definition clearInterval :: "nat \<Rightarrow> env \<Rightarrow> env" where
  "clearInterval i e = e\<lparr>intervals := filter (\<lambda>(k, fn). k \<noteq> i) (intervals e)\<rparr>"

definition mutevol :: "shuffle \<Rightarrow> number \<Rightarrow> number" where
  "mutevol s v = (if muted s then Number 0 else v)"

fun run_callback :: "listeners \<Rightarrow> dcallback \<Rightarrow> shuffle \<times> env \<Rightarrow> shuffle \<times> env" where
  "run_callback L (DoneApplyVolume to normalizer) (s, e) =
     (snd (volume L (Some (mutevol s (num_mul (to_num to) (Number normalizer)))) s), e)"
| "run_callback L AlwaysClearFading (s, e) =
     (s\<lparr>fading_priority := None, fading_promise := None\<rparr>, e)"
| "run_callback L (AlwaysClearInterval i) (s, e) = (s, clearInterval i e)"

fun on_resolve :: "dcallback \<Rightarrow> bool" where
  "on_resolve (DoneApplyVolume to normalizer) = True"
| "on_resolve AlwaysClearFading = True"
| "on_resolve (AlwaysClearInterval i) = True"

fun on_reject :: "dcallback \<Rightarrow> bool" where
  "on_reject (DoneApplyVolume to normalizer) = False"
| "on_reject AlwaysClearFading = True"
| "on_reject (AlwaysClearInterval i) = True"

definition settle :: "listeners \<Rightarrow> dstatus \<Rightarrow> nat \<Rightarrow> shuffle \<times> env \<Rightarrow> shuffle \<times> env" where
  "settle L outcome p w =
     (let (s, e) = w in
      if p < length (promises e) \<and> dstate (promises e ! p) = Pending
      then
        (let d = promises e ! p;
             e1 = e\<lparr>promises := (promises e)[p := d\<lparr>dstate := outcome\<rparr>]\<rparr>;
             fire = filter (if outcome = Resolved then on_resolve else on_reject) (dcallbacks d)
         in foldl (\<lambda>w cb. run_callback L cb w) (s, e1) fire)
      else w)"

definition resolve :: "listeners \<Rightarrow> nat \<Rightarrow> shuffle \<times> env \<Rightarrow> shuffle \<times> env" where
  "resolve L p w = settle L Resolved p w"

definition reject :: "listeners \<Rightarrow> nat \<Rightarrow> shuffle \<times> env \<Rightarrow> shuffle \<times> env" where
  "reject L p w = settle L Rejected p w"

definition add_callback :: "listeners \<Rightarrow> nat \<Rightarrow> dcallback \<Rightarrow> shuffle \<times> env \<Rightarrow> shuffle \<times> env" where
  "add_callback L p cb w =
     (let (s, e) = w in
      if p < length (promises e)
      then
        (let d = promises e ! p in
         if dstate d = Pending
         then (s, e\<lparr>promises := (promises e)[p := d\<lparr>dcallbacks := dcallbacks d @ [cb]\<rparr>]\<rparr>)
         else if (dstate d = Resolved \<and> on_resolve cb) \<or> (dstate d = Rejected \<and> on_reject cb)
         then run_callback L cb w
         else w)
      else w)"

section \<open>Fading\<close>

text \<open>
  The argument object of \<open>fade\<close>. The fields \<open>priority\<close>, \<open>normalizer\<close> and \<open>easing\<close>
  are \<open>None\<close> when they are undefined or \<open>null\<close>; the normalizer is given by the value
  it returns.
\<close>

record fade_args =
  a_from :: "number argument"
  a_to :: "number argument"
  a_msec :: "number argument"
  a_priority :: "int option"
  a_normalizer :: "real option"
  a_easing :: "(real \<Rightarrow> real) option"

text \<open>
  \<open>SonicUtils.assertDefined(x)\<close> is \<open>if (x === undefined) throw new Error(...); return x\<close>
  with \<open>undefined\<close> the library object: it throws for that object only, and returns a
  value that is missing as it is.
\<close>

definition assertDefined :: "'a argument \<Rightarrow> 'a argument outcome" where
  "assertDefined x =
     (if x = LibraryObject then Throws (Error ''Variable was not defined.'') else Returns x)"

text \<open>
  \<open>fade(args)\<close> at the time \<open>now\<close> read from \<open>window.performance.now()\<close>. It returns a
  reference to a deferred.
\<close>

definition fade :: "listeners \<Rightarrow> real \<Rightarrow> fade_args \<Rightarrow> shuffle \<times> env \<Rightarrow> nat outcome \<times> shuffle \<times> env" where
  "fade L now args w =
     (let (s, e) = w;
          from = nvl (a_from args) (Given (gain s))
      in case assertDefined (a_to args) of
           Throws x \<Rightarrow> (Throws x, s, e)
         | Returns to \<Rightarrow>
        (case assertDefined (a_msec args) of
           Throws x \<Rightarrow> (Throws x, s, e)
         | Returns msec \<Rightarrow>
        (let priority = (case a_priority args of None \<Rightarrow> 0 | Some q \<Rightarrow> q);
             normalizer = (case a_normalizer args of None \<Rightarrow> 1 | Some n \<Rightarrow> n);
             easing = a_easing args
         in if fading_promise s \<noteq> None
               \<and> (case fading_priority s of None \<Rightarrow> False | Some p \<Rightarrow> priority < p)
            then
              (let (d, e1) = new_deferred e;
                   (s2, e2) = reject L d (s, e1)
               in (Returns d, s2, e2))
            else
              (let (s1, e1) = (case fading_promise s of
                                 None \<Rightarrow> (s, e)
                               | Some old \<Rightarrow> reject L old (s, e));
                   s2 = s1\<lparr>fading_priority := Some priority\<rparr>;
                   (promise, e2) = new_deferred e1;
                   (s3, e3) = add_callback L promise (DoneApplyVolume to normalizer) (s2, e2);
                   (s4, e4) = add_callback L promise AlwaysClearFading (s3, e3)
               in if num_less (num_abs (num_sub (to_num to) (gain s4))) (Number 0.00001)
                     \<or> msec = Given (Number 0)
                  then
                    (let s5 = snd (volume L (Some (mutevol s4 (num_mul (to_num to) (Number normalizer)))) s4);
                         (s6, e6) = resolve L promise (s5, e4)
                     in (Returns promise, s6, e6))
                  else
                    (let s5 = snd (volume L (Some (num_mul (to_num from) (Number normalizer))) s4);
                         start = now;
                         delta = num_sub (to_num to) (to_num from);
                         (stepper, e5) = setInterval
                            \<lparr>st_promise = promise, st_from = from, st_delta = delta,
                               st_msec = msec, st_start = start, st_normalizer = normalizer,
                               st_easing = easing\<rparr> e4;
                         s6 = s5\<lparr>fading_promise := Some promise\<rparr>;
                         (s7, e7) = add_callback L promise (AlwaysClearInterval stepper) (s6, e5)
                     in (Returns promise, s7, e7))))))"

definition isFading :: "shuffle \<Rightarrow> bool" where
  "isFading s = (fading_promise s \<noteq> None)"

definition cancelFade :: "listeners \<Rightarrow> int option \<Rightarrow> shuffle \<times> env \<Rightarrow> shuffle \<times> env" where
  "cancelFade L priority0 w =
     (let (s, e) = w;
          priority = (case priority0 of None \<Rightarrow> 0 | Some q \<Rightarrow> q)
      in case fading_promise s of
           None \<Rightarrow> w
         | Some p \<Rightarrow>
             if (case fading_priority s of None \<Rightarrow> False | Some fp \<Rightarrow> fp \<le> priority)
             then reject L p w
             else w)"

section \<open>Playing\<close>

text \<open>Calling a method on the object a reference stands for; there is none behind \<open>null\<close>
  and \<open>undefined\<close>, where the call throws a TypeError.\<close>

fun apply_track :: "tref \<Rightarrow> (track \<Rightarrow> track) \<Rightarrow> shuffle \<Rightarrow> shuffle option" where
  "apply_track IntroRef f s =
     (case intro s of None \<Rightarrow> None | Some t \<Rightarrow> Some (s\<lparr>intro := Some (f t)\<rparr>))"
| "apply_track (SectionRef i j) f s =
     (if i < length (sections s) \<and> j < length (sections s ! i)
      then Some (s\<lparr>sections := (sections s)[i := (sections s ! i)[j := f (sections s ! i ! j)]]\<rparr>)
      else None)"
| "apply_track NullRef f s = None"
| "apply_track UndefinedRef f s = None"

fun read_track :: "tref \<Rightarrow> shuffle \<Rightarrow> track option" where
  "read_track IntroRef s = intro s"
| "read_track (SectionRef i j) s =
     (if i < length (sections s) \<and> j < length (sections s ! i)
      then Some (sections s ! i ! j) else None)"
| "read_track NullRef s = None"
| "read_track UndefinedRef s = None"

text \<open>
  \<open>processFinaleEvent(section)\<close>: arms the \<open>finale\<close> timer on the section when a finale
  lead is configured and this is the last section before the end.
\<close>

definition processFinaleEvent :: "tref \<Rightarrow> shuffle \<Rightarrow> unit outcome \<times> shuffle" where
  "processFinaleEvent ref s =
     (case finale s of
        None \<Rightarrow> (Returns (), s)
      | Some lead \<Rightarrow>
          (case isLastSection s of
             Inl x \<Rightarrow> (Throws x, s)
           | Inr is_last \<Rightarrow>
               if \<not> is_last then (Returns (), s)
               else
                 (case read_track ref s of
                    None \<Rightarrow> (Throws TypeError, s)
                  | Some t \<Rightarrow>
                      (let msec = max (track_duration t - lead) 0
                       in case apply_track ref
                                 (\<lambda>t. track_ion ''finale'' FinaleWarning (track_timer msec ''finale'' t)) s of
                            None \<Rightarrow> (Throws TypeError, s)
                          | Some s1 \<Rightarrow> (Returns (), s1)))))"

text \<open>
  The local function \<open>next\<close> of \<open>play\<close>, for one call of it; \<open>r\<close> is the random draw of
  the successor state. The handlers it binds to the section call \<open>next\<close> again later.
\<close>

definition next_step :: "listeners \<Rightarrow> real \<Rightarrow> shuffle \<Rightarrow> unit outcome \<times> shuffle" where
  "next_step L r s =
     (case isLastSection s of
        Inl x \<Rightarrow> (Throws x, s)
      | Inr finished \<Rightarrow>
          (let s1 = (if section_set s = JNull \<or> strict_eq_num (section_set s) (- 1)
                     then s\<lparr>section_set := JNum (int (length (sections s)) - 1)\<rparr>
                     else s)
           in case moveToSucessorState L r s1 of
                (Throws x, s2) \<Rightarrow> (Throws x, s2)
              | (Returns ref, s2) \<Rightarrow>
                  (case processFinaleEvent ref s2 of
                     (Throws x, s3) \<Rightarrow> (Throws x, s3)
                   | (Returns u, s3) \<Rightarrow>
                       if finished \<and> end_stop s3 then (Returns (), s3)
                       else if ref = NullRef \<or> ref = UndefinedRef then (Returns (), s3)
                       else
                         (let sectionset = section_set s3 in
                          case apply_track ref (track_ion ''end'' (SectionEnded sectionset)) s3 of
                            None \<Rightarrow> (Throws TypeError, s3)
                          | Some s4 \<Rightarrow>
                              (case (if has_overlaps s4
                                     then apply_track ref (track_ion ''overlap'' CallNext) s4
                                     else Some s4) of
                                 None \<Rightarrow> (Throws TypeError, s4)
                               | Some s5 \<Rightarrow>
                                   if state s5 = Playing
                                   then
                                     (let s6 = (if strict_eq_num (section_set s5) 0
                                                then trigger L EvCycleBegin s5 else s5);
                                          s7 = trigger L (EvSectionBegin (section_set s6) (section_pos s6)) s6
                                      in if state s7 = Playing
                                         then
                                           (let vol = (if muted s7 then Number 0 else gain s7) in
                                            case apply_track ref (\<lambda>t. track_play (track_volume_value vol t)) s7 of
                                              None \<Rightarrow> (Throws TypeError, s7)
                                            | Some s8 \<Rightarrow> (Returns (), s8))
                                         else (Returns (), s7))
                                   else (Returns (), s5))))))"

text \<open>\<open>play()\<close> with the draw \<open>r\<close> for the call of \<open>next\<close> it may make.\<close>

definition play :: "listeners \<Rightarrow> real \<Rightarrow> shuffle \<times> env \<Rightarrow> unit outcome \<times> shuffle \<times> env" where
  "play L r w =
     (let (s, e) = w in
      if state s = Playing then (Returns (), s, e)
      else if length (sections s) = 0
      then (Returns (), s, e\<lparr>console := console e @
              [''There are no sections included in this sonic shuffle. Unable to initiate play.'']\<rparr>)
      else if state s = Paused
      then
        (case nowPlaying s of
           Throws x \<Rightarrow> (Throws x, s, e)
         | Returns ref \<Rightarrow>
             (case apply_track ref track_play s of
                None \<Rightarrow> (Throws TypeError, s, e)
              | Some s1 \<Rightarrow> (Returns (), s1\<lparr>state := Playing\<rparr>, e)))
      else
        (let playintro = (state s = Stopped \<and> intro s \<noteq> None);
             s1 = s\<lparr>state := Playing\<rparr>;
             s2 = trigger L EvPlay s1
         in if playintro
            then
              (let s3 = s2\<lparr>section_set := JNum (- 1)\<rparr>;
                   s4 = s3\<lparr>section_pos := JNum 0\<rparr>;
                   terminalevt = (if has_overlaps s4 then ''overlap'' else ''end'')
               in case apply_track IntroRef (\<lambda>t. track_play (track_ion terminalevt CallNext t)) s4 of
                    None \<Rightarrow> (Throws TypeError, s4, e)
                  | Some s5 \<Rightarrow>
                      (Returns (),
                       trigger L (EvSectionBegin (section_set s5) (section_pos s5)) s5, e))
            else
              (case next_step L r s2 of
                 (out, s3) \<Rightarrow> (out, s3, e))))"

text \<open>\<open>pause()\<close>.\<close>

definition pause :: "listeners \<Rightarrow> shuffle \<Rightarrow> unit outcome \<times> shuffle" where
  "pause L s =
     (case nowPlaying s of
        Throws x \<Rightarrow> (Throws x, s)
      | Returns ref \<Rightarrow>
          if ref = NullRef \<or> ref = UndefinedRef \<or> state s \<noteq> Playing then (Returns (), s)
          else
            (let s1 = s\<lparr>state := Paused\<rparr> in
             case apply_track ref track_pause s1 of
               None \<Rightarrow> (Throws TypeError, s1)
             | Some s2 \<Rightarrow> (Returns (), trigger L EvPause s2)))"

section \<open>The music session\<close>






































section \<open>Example states\<close>

text \<open>Concrete tracks and Shuffles on which the theorems below are instantiated.\<close>

definition demo_track :: track where
  "demo_track = \<lparr>tstate = Playing, tgain = 1, tmuted = False, tfading = False,
     tduration = 1000, ttimers = [], thandlers = []\<rparr>"

definition demo_shuffle :: shuffle where
  "demo_shuffle = \<lparr>gain = Number 1, intro = Some demo_track,
     sections = [[demo_track, demo_track\<lparr>tfading := True\<rparr>], [demo_track]],
     section_states = [[True, True], [True]], muted = False, has_overlaps = False,
     finale = None, section_set = JNum 1, section_pos = JNum 0, state = Playing,
     fading_priority = None, fading_promise = None, end_stop = True,
     end_scope = ''fullcycle''\<rparr>"

definition demo_env :: env where
  "demo_env = \<lparr>promises = [], intervals = [], next_timer = 0, console = []\<rparr>"

text \<open>
  A fade in flight: the Shuffle and the environment that
  \<open>fade({from: 1, to: 0, msec: 2500, priority: 1})\<close> leaves at time 0.
\<close>

definition demo_fade_args :: fade_args where
  "demo_fade_args = \<lparr>a_from = Given (Number 1), a_to = Given (Number 0),
     a_msec = Given (Number 2500), a_priority = Some 1, a_normalizer = None, a_easing = None\<rparr>"

definition demo_fading_shuffle :: shuffle where
  "demo_fading_shuffle = demo_shuffle\<lparr>fading_priority := Some 1, fading_promise := Some 0\<rparr>"

definition demo_fading_env :: env where
  "demo_fading_env =
     \<lparr>promises = [\<lparr>dstate = Pending,
                    dcallbacks = [DoneApplyVolume (Given (Number 0)) 1, AlwaysClearFading,
                                  AlwaysClearInterval 0]\<rparr>],
      intervals = [(0, \<lparr>st_promise = 0, st_from = Given (Number 1), st_delta = Number (- 1),
                         st_msec = Given (Number 2500),
                         st_start = 0, st_normalizer = 1, st_easing = None\<rparr>)],
      next_timer = 1, console = []\<rparr>"


section \<open>Properties of the visitation grid\<close>

lemma reduce_or_nonempty: "row \<noteq> [] \<Longrightarrow> reduce_or row = Inr (True \<in> set row)"
proof (cases row)
  case Nil
  assume "row \<noteq> []"
  with Nil show ?thesis by simp
next
  case (Cons x xs)
  have "foldl (\<lambda>x y. x \<or> y) a xs = (a \<or> True \<in> set xs)" for a
    by (induction xs arbitrary: a) auto
  with Cons show ?thesis by auto
qed

lemma cycleExists_fold_error:
  "foldl (\<lambda>a b. case a of Inl e \<Rightarrow> Inl e | Inr av \<Rightarrow> if av then reduce_or b else Inr False)
     (Inl e) v = Inl e"
  by (induction v) simp_all

lemma cycleExists_fold_false:
  "foldl (\<lambda>a b. case a of Inl e \<Rightarrow> Inl e | Inr av \<Rightarrow> if av then reduce_or b else Inr False)
     (Inr False) v = Inr False"
  by (induction v) simp_all

lemma cycleExists_Nil: "cycleExists [] = Inr True"
  by (simp add: cycleExists_def)

lemma cycleExists_Cons:
  "cycleExists (row # v) =
     (case reduce_or row of Inl e \<Rightarrow> Inl e
      | Inr c \<Rightarrow> if c then cycleExists v else Inr False)"
  by (cases "reduce_or row")
     (simp_all add: cycleExists_def cycleExists_fold_error cycleExists_fold_false)

lemma cycleExists_nonempty_rows:
  "\<forall>row\<in>set v. row \<noteq> [] \<Longrightarrow> cycleExists v = Inr (\<forall>row\<in>set v. True \<in> set row)"
  by (induction v) (simp_all add: cycleExists_Nil cycleExists_Cons reduce_or_nonempty)

text \<open>
  C2, as the claim states it, fails on a grid with an empty row: the reduction of the empty
  row throws instead of yielding false.
\<close>

theorem cycleExists_empty_row_throws: "cycleExists [[]] = Inl TypeError"
  by (simp add: cycleExists_def)

text \<open>
  C2 (amended): for every visitation grid none of whose rows is empty, \<open>cycleExists\<close>
  returns true if and only if every row contains at least one true entry, and returns
  false if and only if at least one row is entirely false.
\<close>

theorem cycleExists_iff:
  assumes "\<forall>row\<in>set v. row \<noteq> []"
  shows "(cycleExists v = Inr True \<longleftrightarrow> (\<forall>row\<in>set v. \<exists>b\<in>set row. b))
       \<and> (cycleExists v = Inr False \<longleftrightarrow> (\<exists>row\<in>set v. \<forall>b\<in>set row. \<not> b))"
proof -
  have "cycleExists v = Inr (\<forall>row\<in>set v. True \<in> set row)"
    using assms by (rule cycleExists_nonempty_rows)
  moreover have "(\<forall>row\<in>set v. True \<in> set row) \<longleftrightarrow> (\<forall>row\<in>set v. \<exists>b\<in>set row. b)"
    by auto
  moreover have "(\<not> (\<forall>row\<in>set v. True \<in> set row)) \<longleftrightarrow> (\<exists>row\<in>set v. \<forall>b\<in>set row. \<not> b)"
    by auto
  ultimately show ?thesis by auto
qed

theorem cycleExists_iff_witness:
  "cycleExists [[True, False], [False]] = Inr False"
proof -
  have h: "\<forall>row\<in>set [[True, False], [False]]. row \<noteq> []" by simp
  have e: "\<exists>row\<in>set [[True, False], [False]]. \<forall>b\<in>set row. \<not> b" by simp
  from cycleExists_iff [OF h] e show ?thesis by blast
qed

section \<open>The last section before the stop\<close>

text \<open>
  C3: for a Shuffle with \<open>n\<close> section sets, \<open>isLastSection\<close> returns true when the end scope
  is \<open>section\<close>; under \<open>cycle\<close> it returns whether the position's set is \<open>n - 1\<close>; under
  \<open>fullcycle\<close> it returns true if and only if the position's set is \<open>n - 1\<close> and
  \<open>cycleExists\<close> of the visitation grid is false, and false if and only if the set is not
  \<open>n - 1\<close> or \<open>cycleExists\<close> is true; under \<open>loop\<close> it returns false. This holds
  for every \<open>n\<close>, the single-set Shuffle included.
\<close>

theorem isLastSection_table:
  "isLastSection (s\<lparr>end_scope := ''section''\<rparr>) = Inr True
   \<and> isLastSection (s\<lparr>end_scope := ''cycle''\<rparr>)
       = Inr (section_set s = JNum (int (length (sections s)) - 1))
   \<and> (isLastSection (s\<lparr>end_scope := ''fullcycle''\<rparr>) = Inr True
        \<longleftrightarrow> section_set s = JNum (int (length (sections s)) - 1)
            \<and> cycleExists (section_states s) = Inr False)
   \<and> (isLastSection (s\<lparr>end_scope := ''fullcycle''\<rparr>) = Inr False
        \<longleftrightarrow> cycleExists (section_states s) = Inr True
            \<or> section_set s \<noteq> JNum (int (length (sections s)) - 1))
   \<and> isLastSection (s\<lparr>end_scope := ''loop''\<rparr>) = Inr False"
proof -
  have eq: "strict_eq_num v n = (v = JNum n)" for v n
    by (cases v) simp_all
  show ?thesis
    by (cases "cycleExists (section_states s)") (auto simp add: isLastSection_def eq)
qed

theorem isLastSection_table_witness:
  "isLastSection (demo_shuffle\<lparr>sections := [[demo_track]], section_states := [[False]],
      section_set := JNum 0, end_scope := ''fullcycle''\<rparr>) = Inr True"
proof -
  let ?s = "demo_shuffle\<lparr>sections := [[demo_track]], section_states := [[False]],
      section_set := JNum 0\<rparr>"
  have c: "cycleExists (section_states ?s) = Inr False"
    by (simp add: cycleExists_def)
  have p: "section_set ?s = JNum (int (length (sections ?s)) - 1)"
    by simp
  from isLastSection_table [of ?s] c p show ?thesis by simp
qed

section \<open>The loops over the owned tracks\<close>

declare for_sections.simps [simp del] for_sectionsets.simps [simp del]

lemma for_sections_map:
  "for_sections (\<lambda>t a b. f t) i j row = take j row @ map f (drop j row)"
proof (induction "(\<lambda>t (a::int) (b::int). f t)" i j row rule: for_sections.induct)
  case (1 sectionset j row)
  show ?case
  proof (cases "j < length row")
    case True
    have "for_sections (\<lambda>t a b. f t) sectionset j row
        = for_sections (\<lambda>t a b. f t) sectionset (Suc j) (row[j := f (row ! j)])"
      using True by (subst for_sections.simps) simp
    also have "\<dots> = take (Suc j) (row[j := f (row ! j)]) @ map f (drop (Suc j) (row[j := f (row ! j)]))"
      using True by (rule "1")
    also have "\<dots> = take j row @ map f (drop j row)"
      using True by (simp add: take_Suc_conv_app_nth Cons_nth_drop_Suc [symmetric])
    finally show ?thesis .
  next
    case False
    then show ?thesis by (subst for_sections.simps) simp
  qed
qed

lemma for_sectionsets_map:
  "for_sectionsets (\<lambda>t a b. f t) i secs = take i secs @ map (map f) (drop i secs)"
proof (induction "(\<lambda>t (a::int) (b::int). f t)" i secs rule: for_sectionsets.induct)
  case (1 i secs)
  show ?case
  proof (cases "i < length secs")
    case True
    let ?secs' = "secs[i := for_sections (\<lambda>t a b. f t) i 0 (secs ! i)]"
    have "for_sectionsets (\<lambda>t a b. f t) i secs = for_sectionsets (\<lambda>t a b. f t) (Suc i) ?secs'"
      using True by (subst for_sectionsets.simps) simp
    also have "\<dots> = take (Suc i) ?secs' @ map (map f) (drop (Suc i) ?secs')"
      using True by (rule "1")
    also have "\<dots> = take i secs @ map (map f) (drop i secs)"
      using True by (simp add: take_Suc_conv_app_nth Cons_nth_drop_Suc [symmetric] for_sections_map)
    finally show ?thesis .
  next
    case False
    then show ?thesis by (subst for_sectionsets.simps) simp
  qed
qed

lemma forEachSection_map:
  "forEachSection (\<lambda>t a b. f t) s = s\<lparr>intro := map_option f (intro s), sections := map (map f) (sections s)\<rparr>"
  by (cases "intro s") (simp_all add: forEachSection_def for_sectionsets_map)

section \<open>Stopping\<close>

text \<open>
  C8: for every Shuffle in any state, \<open>stop()\<close> fires the \<open>stop\<close> event on a state in
  which every owned track (the intro, if present, and every section of every set) has been
  stopped, both components of the position are \<open>null\<close>, the visitation grid has the shape
  of the sections and every entry of it is true, and the play state is \<open>stopped\<close>. That
  state is what \<open>stop()\<close> leaves when no listener is registered.
\<close>

theorem stop_post:
  "stop L s = trigger L EvStop (stop no_listeners s)
   \<and> intro (stop no_listeners s) = map_option track_stop (intro s)
   \<and> sections (stop no_listeners s) = map (map track_stop) (sections s)
   \<and> (case intro (stop no_listeners s) of None \<Rightarrow> True | Some t \<Rightarrow> tstate t = Stopped)
   \<and> list_all (list_all (\<lambda>t. tstate t = Stopped)) (sections (stop no_listeners s))
   \<and> section_set (stop no_listeners s) = JNull
   \<and> section_pos (stop no_listeners s) = JNull
   \<and> map length (section_states (stop no_listeners s)) = map length (sections s)
   \<and> list_all (list_all (\<lambda>b. b)) (section_states (stop no_listeners s))
   \<and> state (stop no_listeners s) = Stopped"
  by (cases "intro s")
     (simp_all add: stop_def trigger_def no_listeners_def forEachSection_map Let_def
       resetSectionsPlayed_def track_stop_def list_all_iff comp_def)

theorem stop_post_witness:
  "stop no_listeners demo_shuffle
   = demo_shuffle\<lparr>intro := Some (demo_track\<lparr>tstate := Stopped\<rparr>),
       sections := [[demo_track\<lparr>tstate := Stopped\<rparr>,
                     demo_track\<lparr>tfading := True, tstate := Stopped\<rparr>],
                    [demo_track\<lparr>tstate := Stopped\<rparr>]],
       section_set := JNull, section_pos := JNull, state := Stopped\<rparr>"
proof -
  have "sections (stop no_listeners demo_shuffle) = map (map track_stop) (sections demo_shuffle)"
    using stop_post [of no_listeners demo_shuffle] by blast
  moreover have "stop no_listeners demo_shuffle
     = demo_shuffle\<lparr>intro := intro (stop no_listeners demo_shuffle),
         sections := sections (stop no_listeners demo_shuffle),
         section_set := JNull, section_pos := JNull, state := Stopped\<rparr>"
    by (simp add: stop_def trigger_def no_listeners_def forEachSection_map Let_def
        resetSectionsPlayed_def demo_shuffle_def)
  moreover have "intro (stop no_listeners demo_shuffle) = Some (demo_track\<lparr>tstate := Stopped\<rparr>)"
    by (simp add: stop_def trigger_def no_listeners_def forEachSection_map Let_def
        track_stop_def demo_shuffle_def)
  ultimately show ?thesis
    by (simp add: demo_shuffle_def track_stop_def)
qed

section \<open>Setting the volume\<close>

lemma mute_eq:
  "mute L s = trigger L (EvMute True)
     (s\<lparr>muted := True, intro := map_option track_mute (intro s),
        sections := map (map track_mute) (sections s)\<rparr>)"
  by (simp add: mute_def forEachSection_map Let_def)

text \<open>
  C9, as the claim states it, fails on a muted Shuffle: \<open>volume\<close> hands over to \<open>mute()\<close>
  and sets no track's volume. Here every track keeps its gain 1 although the volume is set
  to one half.
\<close>

theorem volume_muted_counterexample:
  "map (map tgain)
     (sections (snd (volume no_listeners (Some (Number (1 / 2))) (demo_shuffle\<lparr>muted := True\<rparr>))))
     = [[1, 1], [1]]"
  by (simp add: volume_def mute_eq trigger_def no_listeners_def demo_shuffle_def demo_track_def
      track_mute_def clamp_def Let_def)

text \<open>
  C9 (amended): for every Shuffle and every number \<open>v\<close>, \<open>volume(v)\<close> clamps \<open>v\<close> to
  \<open>[0, 1]\<close>, stores the clamped value as the Shuffle's gain and fires the \<open>volume\<close> event
  with it. Then, if the Shuffle is not muted, it sets the volume of every owned track that is
  not fading to the clamped value and leaves every fading track as it is; if the Shuffle is
  muted, it calls \<open>mute()\<close> instead, which leaves the gain of every owned track unchanged.
\<close>

theorem volume_propagates:
  "(let c = clamp v 0 1;
        s1 = trigger L (EvVolume (Number c)) (s\<lparr>gain := Number c\<rparr>);
        set_gain = (\<lambda>t. if tfading t then t else t\<lparr>tgain := c\<rparr>)
    in 0 \<le> c \<and> c \<le> 1
       \<and> (if muted s1
          then volume L (Some (Number v)) s = (None, mute L s1)
            \<and> map_option tgain (intro (mute no_listeners s1)) = map_option tgain (intro s1)
            \<and> map (map tgain) (sections (mute no_listeners s1)) = map (map tgain) (sections s1)
          else volume L (Some (Number v)) s
               = (None, s1\<lparr>intro := map_option set_gain (intro s1),
                           sections := map (map set_gain) (sections s1)\<rparr>)))"
proof -
  have f: "(\<lambda>section (i::int) (j::int). if track_isFading section then section
              else track_volume_value (Number c) section)
         = (\<lambda>t a b. (\<lambda>t. if tfading t then t else t\<lparr>tgain := c\<rparr>) t)" for c
    by (intro ext) (simp add: track_isFading_def track_volume_def)
  have g: "map_option (tgain \<circ> track_mute) x = map_option tgain x" for x
    by (cases x) (simp_all add: track_mute_def)
  have h: "map (map (tgain \<circ> track_mute)) x = map (map tgain) x" for x
    by (simp add: track_mute_def comp_def)
  have cl: "0 \<le> clamp v 0 1" "clamp v 0 1 \<le> 1"
    by (simp_all add: clamp_def)
  show ?thesis
    unfolding Let_def
    by (simp add: volume_def Let_def f forEachSection_map cl mute_eq trigger_def
        no_listeners_def option.map_comp g h)
qed

theorem volume_propagates_witness:
  "snd (volume no_listeners (Some (Number 3)) (demo_shuffle\<lparr>gain := Number (1 / 4)\<rparr>))
   = demo_shuffle\<lparr>gain := Number 1, intro := Some (demo_track\<lparr>tgain := 1\<rparr>),
       sections := [[demo_track\<lparr>tgain := 1\<rparr>, demo_track\<lparr>tfading := True\<rparr>],
                    [demo_track\<lparr>tgain := 1\<rparr>]]\<rparr>"
  using volume_propagates [of 3 no_listeners "demo_shuffle\<lparr>gain := Number (1 / 4)\<rparr>"]
  by (simp add: Let_def trigger_def no_listeners_def clamp_def demo_shuffle_def demo_track_def)

section \<open>The default easing\<close>

text \<open>
  C10: the default easing of \<open>fade\<close> returns \<open>clamp(1 - cos(\<pi> t / 2), 0, 1)\<close> for every
  \<open>t\<close>. Its first statement calls \<open>gainToPerceptualVolume\<close> on the undefined variable,
  which returns \<open>0.01\<close> and does not throw, and the value is overwritten.
\<close>

theorem default_easing_eq:
  "gainToPerceptualVolume None = Returns (1 / 100)
   \<and> default_easing t = Returns (clamp (1 - cos (pi * t / 2)) 0 1)"
  by (simp add: default_easing_def gainToPerceptualVolume_def)

section \<open>Random indices and the eligible sections\<close>

lemma possible_snoc:
  "possible (row @ [b]) = possible row @ (if b then [int (length row)] else [])"
  by (simp add: possible_def enumerate_append_eq)

lemma possible_eq: "possible row = map int (filter (\<lambda>i. row ! i) [0..<length row])"
proof (induction row rule: rev_induct)
  case Nil
  show ?case by (simp add: possible_def)
next
  case (snoc b row)
  have "filter (\<lambda>i. (row @ [b]) ! i) [0..<length row] = filter (\<lambda>i. row ! i) [0..<length row]"
    by (rule filter_cong) (simp_all add: nth_append)
  then show ?case
    by (simp add: possible_snoc snoc.IH)
qed

lemma possible_set: "set (possible row) = int ` {i. i < length row \<and> row ! i}"
  by (auto simp add: possible_eq)

lemma possible_nonempty: "True \<in> set row \<Longrightarrow> possible row \<noteq> []"
proof -
  assume "True \<in> set row"
  then obtain i where "i < length row" "row ! i" by (auto simp: in_set_conv_nth)
  then have "int i \<in> set (possible row)" by (simp add: possible_set)
  then show ?thesis by auto
qed

lemma js_round_range:
  assumes "0 \<le> r" "r < 1" "0 < n"
  shows "0 \<le> js_round (r * (real n - 1))" "js_round (r * (real n - 1)) < int n"
proof -
  have n1: "0 \<le> real n - 1" using assms(3) by simp
  have "0 \<le> r * (real n - 1)" using assms(1) n1 by simp
  then show "0 \<le> js_round (r * (real n - 1))" by (simp add: js_round_def)
  have "r * (real n - 1) \<le> real n - 1"
    using assms(1,2) n1 by (simp add: mult_left_le_one_le)
  then have "r * (real n - 1) + 1 / 2 < real n" by simp
  then show "js_round (r * (real n - 1)) < int n"
    by (simp add: js_round_def floor_less_iff)
qed

lemma random_index_range:
  assumes "0 \<le> r" "r < 1" "array \<noteq> []"
  shows "\<exists>i<length array. random_index array r = JNum (int i)"
proof -
  let ?k = "js_round (r * (real (length array) - 1))"
  have "0 \<le> ?k" "?k < int (length array)"
    using js_round_range [OF assms(1,2), of "length array"] assms(3) by simp_all
  then have "nat ?k < length array" "int (nat ?k) = ?k" by simp_all
  moreover have "random_index array r = JNum ?k"
    using assms(3) by (simp add: random_index_def)
  ultimately show ?thesis by metis
qed

lemma random_choice_member:
  assumes "0 \<le> r" "r < 1" "array \<noteq> []"
  shows "\<exists>x\<in>set array. random_choice array r = JNum x"
proof -
  from random_index_range [OF assms] obtain i where
    i: "i < length array" "random_index array r = JNum (int i)" by blast
  then have "random_choice array r = JNum (array ! i)"
    using assms(3) by (simp add: random_choice_def)
  with i(1) show ?thesis by auto
qed

lemma succ_set_mod:
  assumes "- 1 \<le> p" "0 < n"
  shows "succ_set (JNum p) n = JNum ((p + 1) mod int n)"
  using assms by (simp add: succ_set_def js_rem_def sgn_if)

section \<open>Moving to the successor state\<close>

lemma choose_section:
  assumes set2: "section_set s2 = JNum k" and k0: "0 \<le> k"
    and kg: "nat k < length (section_states s2)"
    and ks: "nat k < length (sections s2)"
    and len: "length (sections s2 ! nat k) = length (section_states s2 ! nat k)"
    and elig: "True \<in> set (section_states s2 ! nat k)"
    and draw: "0 \<le> r" "r < 1"
  shows "\<exists>j<length (section_states s2 ! nat k).
           section_states s2 ! nat k ! j
         \<and> JNum (int j) = random_choice (possible (section_states s2 ! nat k)) r
         \<and> (case js_index (section_states s2) (section_set s2) of
               None \<Rightarrow> (Throws TypeError, s2)
             | Some row \<Rightarrow>
                 (let s3 = s2\<lparr>section_pos := random_choice (possible row) r\<rparr>;
                      s4 = s3\<lparr>section_states :=
                              mark_visited (section_states s3) (section_set s3) (section_pos s3)\<rparr>
                  in (nowPlaying s4, s4)))
           = (Returns (SectionRef (nat k) j),
              s2\<lparr>section_pos := JNum (int j),
                 section_states := (section_states s2)
                   [nat k := (section_states s2 ! nat k)[j := False]]\<rparr>)"
proof -
  let ?row = "section_states s2 ! nat k"
  have "possible ?row \<noteq> []" using elig by (rule possible_nonempty)
  from random_choice_member [OF draw this] obtain x where
    x: "x \<in> set (possible ?row)" "random_choice (possible ?row) r = JNum x" by blast
  from x(1) obtain j where j: "x = int j" "j < length ?row" "?row ! j"
    by (auto simp add: possible_set)
  have idx: "js_index (section_states s2) (section_set s2) = Some ?row"
    using set2 k0 kg by simp
  have idx2: "js_index (sections s2) (JNum k) = Some (sections s2 ! nat k)"
    using k0 ks by simp
  have np: "nowPlaying (s2\<lparr>section_pos := JNum (int j),
                 section_states := (section_states s2)[nat k := ?row[j := False]]\<rparr>)
            = Returns (SectionRef (nat k) j)"
    using set2 k0 idx2 j(2) len by (simp add: nowPlaying_def)
  have "(case js_index (section_states s2) (section_set s2) of
               None \<Rightarrow> (Throws TypeError, s2)
             | Some row \<Rightarrow>
                 (let s3 = s2\<lparr>section_pos := random_choice (possible row) r\<rparr>;
                      s4 = s3\<lparr>section_states :=
                              mark_visited (section_states s3) (section_set s3) (section_pos s3)\<rparr>
                  in (nowPlaying s4, s4)))
           = (Returns (SectionRef (nat k) j),
              s2\<lparr>section_pos := JNum (int j),
                 section_states := (section_states s2)[nat k := ?row[j := False]]\<rparr>)"
    using np k0 kg by (simp add: x(2) j(1) set2 Let_def)
  with j(3) x(2) j(1) have "section_states s2 ! nat k ! j
         \<and> JNum (int j) = random_choice (possible (section_states s2 ! nat k)) r
         \<and> (case js_index (section_states s2) (section_set s2) of
               None \<Rightarrow> (Throws TypeError, s2)
             | Some row \<Rightarrow>
                 (let s3 = s2\<lparr>section_pos := random_choice (possible row) r\<rparr>;
                      s4 = s3\<lparr>section_states :=
                              mark_visited (section_states s3) (section_set s3) (section_pos s3)\<rparr>
                  in (nowPlaying s4, s4)))
           = (Returns (SectionRef (nat k) j),
              s2\<lparr>section_pos := JNum (int j),
                 section_states := (section_states s2)
                   [nat k := (section_states s2 ! nat k)[j := False]]\<rparr>)"
    by simp
  with j(2) show ?thesis by blast
qed

text \<open>
  C1, as the claim states it, fails on a playing Shuffle with a non-empty sections list one
  of whose section sets is empty: on entering set 0 the call of \<open>cycleExists\<close> throws, and
  no section is chosen.
\<close>

theorem moveToSucessorState_empty_set_throws:
  "fst (moveToSucessorState no_listeners 0
          (demo_shuffle\<lparr>sections := [[demo_track], []], section_states := [[True], []]\<rparr>))
   = Throws TypeError"
  by (simp add: moveToSucessorState_def demo_shuffle_def succ_set_def js_rem_def
      cycleExists_def Let_def)

text \<open>
  C1 (amended): take a Shuffle with \<open>n > 0\<close> section sets, none of them empty, whose
  visitation grid has the shape of the sections and whose position is a set \<open>p \<ge> -1\<close>,
  and a draw \<open>0 \<le> r < 1\<close>. One call of \<open>moveToSucessorState\<close> sets the position's set
  to \<open>k = (p + 1) mod n\<close>; then, if \<open>k = 0\<close> and \<open>cycleExists\<close> is false, it fires
  \<open>fullcycle\<close> and resets every visitation entry to true; then, if the play state is not
  \<open>playing\<close>, it returns \<open>null\<close>; otherwise it sets the position's section to an index
  \<open>j\<close> with \<open>visitation[k][j]\<close> true, the one \<open>random_choice\<close> picks among those indices
  for the draw, sets \<open>visitation[k][j]\<close> to false and returns the track
  \<open>sections[k][j]\<close>. It is assumed that the row of a set \<open>k \<noteq> 0\<close> has a true entry, and
  that listeners of \<open>fullcycle\<close> that leave the Shuffle playing leave its sections and its
  position's set as they are.
\<close>

theorem moveToSucessorState_steps:
  assumes nonempty: "sections s \<noteq> []"
    and pos: "section_set s = JNum p" "- 1 \<le> p"
    and shape: "map length (section_states s) = map length (sections s)"
    and sets: "\<forall>sectionset\<in>set (sections s). sectionset \<noteq> []"
    and draw: "0 \<le> r" "r < 1"
    and eligible: "(p + 1) mod int (length (sections s)) \<noteq> 0 \<Longrightarrow>
        True \<in> set (section_states s ! nat ((p + 1) mod int (length (sections s))))"
    and listeners: "(p + 1) mod int (length (sections s)) = 0 \<Longrightarrow>
        cycleExists (section_states s) = Inr False \<Longrightarrow>
        state (trigger L EvFullcycle (s\<lparr>section_set := JNum 0\<rparr>)) = Playing \<Longrightarrow>
        sections (trigger L EvFullcycle (s\<lparr>section_set := JNum 0\<rparr>)) = sections s
        \<and> section_set (trigger L EvFullcycle (s\<lparr>section_set := JNum 0\<rparr>)) = JNum 0"
  shows "let k = (p + 1) mod int (length (sections s));
             s1 = s\<lparr>section_set := JNum k\<rparr>;
             broken = (k = 0 \<and> cycleExists (section_states s) = Inr False);
             s2 = (if broken
                   then (trigger L EvFullcycle s1)
                          \<lparr>section_states := map (map (\<lambda>t. True)) (sections (trigger L EvFullcycle s1))\<rparr>
                   else s1)
         in if state s2 \<noteq> Playing
            then moveToSucessorState L r s = (Returns NullRef, s2)
            else \<exists>j<length (section_states s2 ! nat k).
                   section_states s2 ! nat k ! j
                 \<and> JNum (int j) = random_choice (possible (section_states s2 ! nat k)) r
                 \<and> nat k < length (sections s2) \<and> j < length (sections s2 ! nat k)
                 \<and> moveToSucessorState L r s
                   = (Returns (SectionRef (nat k) j),
                      s2\<lparr>section_pos := JNum (int j),
                         section_states := (section_states s2)
                           [nat k := (section_states s2 ! nat k)[j := False]]\<rparr>)"
proof -
  define n where "n = length (sections s)"
  define k where "k = (p + 1) mod int n"
  define s1 where "s1 = s\<lparr>section_set := JNum k\<rparr>"
  define broken where "broken = (k = 0 \<and> cycleExists (section_states s) = Inr False)"
  define s2 where "s2 = (if broken
                   then (trigger L EvFullcycle s1)
                          \<lparr>section_states := map (map (\<lambda>t. True)) (sections (trigger L EvFullcycle s1))\<rparr>
                   else s1)"
  have n0: "0 < n" using nonempty by (simp add: n_def)
  have k_range: "0 \<le> k" "k < int n" using n0 by (simp_all add: k_def)
  have kn: "nat k < n" using k_range by simp
  have len_grid: "length (section_states s) = n"
    using shape unfolding n_def by (metis length_map)
  have row_len: "length (section_states s ! i) = length (sections s ! i)" if "i < n" for i
  proof -
    have "map length (section_states s) ! i = map length (sections s) ! i"
      using shape by simp
    then show ?thesis using that len_grid by (simp add: n_def)
  qed
  have rows_nonempty: "\<forall>row\<in>set (section_states s). row \<noteq> []"
  proof
    fix row assume "row \<in> set (section_states s)"
    then obtain i where i: "i < n" "row = section_states s ! i"
      using len_grid by (auto simp add: in_set_conv_nth)
    then have "sections s ! i \<in> set (sections s)" by (simp add: n_def)
    then have "sections s ! i \<noteq> []" using sets by blast
    then show "row \<noteq> []" using row_len [OF i(1)] i(2) by auto
  qed
  have cyc: "cycleExists (section_states s) = Inr (\<forall>row\<in>set (section_states s). True \<in> set row)"
    using rows_nonempty by (rule cycleExists_nonempty_rows)
  have succ: "succ_set (section_set s) (length (sections s)) = JNum k"
    using pos n0 by (simp add: succ_set_mod k_def n_def)
  have cond: "(if strict_eq_num (section_set s1) 0
            then (case cycleExists (section_states s1) of
                    Inl e \<Rightarrow> Inl e
                  | Inr c \<Rightarrow> Inr (\<not> c))
            else Inr False) = Inr broken"
    by (simp add: s1_def broken_def cyc)
  have reset: "resetSectionsPlayed secs = map (map (\<lambda>t. True)) secs" for secs
    by (simp add: resetSectionsPlayed_def)
  define pick where "pick = (\<lambda>s2.
       if state s2 \<noteq> Playing then (Returns NullRef, s2)
       else (case js_index (section_states s2) (section_set s2) of
               None \<Rightarrow> (Throws TypeError, s2)
             | Some row \<Rightarrow>
                 (let s3 = s2\<lparr>section_pos := random_choice (possible row) r\<rparr>;
                      s4 = s3\<lparr>section_states :=
                              mark_visited (section_states s3) (section_set s3) (section_pos s3)\<rparr>
                  in (nowPlaying s4, s4))))"
  have "moveToSucessorState L r s =
      (case (if strict_eq_num (section_set s1) 0
            then (case cycleExists (section_states s1) of
                    Inl e \<Rightarrow> Inl e
                  | Inr c \<Rightarrow> Inr (\<not> c))
            else Inr False) of
        Inl e \<Rightarrow> (Throws e, s1)
      | Inr broken \<Rightarrow>
          pick (if broken
                     then (let s' = trigger L EvFullcycle s1
                           in s'\<lparr>section_states := resetSectionsPlayed (sections s')\<rparr>)
                     else s1))"
    unfolding moveToSucessorState_def succ pick_def s1_def Let_def ..
  also have "\<dots> = pick s2"
    unfolding cond by (simp add: s2_def reset Let_def)
  finally have unfold: "moveToSucessorState L r s =
      (if state s2 \<noteq> Playing then (Returns NullRef, s2)
       else (case js_index (section_states s2) (section_set s2) of
               None \<Rightarrow> (Throws TypeError, s2)
             | Some row \<Rightarrow>
                 (let s3 = s2\<lparr>section_pos := random_choice (possible row) r\<rparr>;
                      s4 = s3\<lparr>section_states :=
                              mark_visited (section_states s3) (section_set s3) (section_pos s3)\<rparr>
                  in (nowPlaying s4, s4))))"
    unfolding pick_def .
  have main: "if state s2 \<noteq> Playing
            then moveToSucessorState L r s = (Returns NullRef, s2)
            else \<exists>j<length (section_states s2 ! nat k).
                   section_states s2 ! nat k ! j
                 \<and> JNum (int j) = random_choice (possible (section_states s2 ! nat k)) r
                 \<and> nat k < length (sections s2) \<and> j < length (sections s2 ! nat k)
                 \<and> moveToSucessorState L r s
                   = (Returns (SectionRef (nat k) j),
                      s2\<lparr>section_pos := JNum (int j),
                         section_states := (section_states s2)
                           [nat k := (section_states s2 ! nat k)[j := False]]\<rparr>)"
  proof (cases "state s2 = Playing")
    case False
    then show ?thesis using unfold by simp
  next
    case playing: True
    have facts: "section_set s2 = JNum k \<and> nat k < length (section_states s2)
        \<and> nat k < length (sections s2)
        \<and> length (sections s2 ! nat k) = length (section_states s2 ! nat k)
        \<and> True \<in> set (section_states s2 ! nat k)"
    proof (cases broken)
      case True
      then have k0: "k = 0" and c: "cycleExists (section_states s) = Inr False"
        by (simp_all add: broken_def)
      let ?s' = "trigger L EvFullcycle (s\<lparr>section_set := JNum 0\<rparr>)"
      have s2': "s2 = ?s'\<lparr>section_states := map (map (\<lambda>t. True)) (sections ?s')\<rparr>"
        using True k0 by (simp add: s2_def s1_def)
      have "state ?s' = Playing" using playing s2' by simp
      with listeners k0 c have L: "sections ?s' = sections s" "section_set ?s' = JNum 0"
        by (simp_all add: k_def n_def)
      have "sections s ! 0 \<in> set (sections s)" using n0 by (simp add: n_def)
      then have "sections s ! 0 \<noteq> []" using sets by blast
      then have ne: "\<exists>t. t \<in> set (sections s ! 0)"
        by (cases "sections s ! 0") auto
      show ?thesis
        using L n0 ne by (simp add: s2' k0 n_def)
    next
      case False
      then have s2': "s2 = s1" by (simp add: s2_def)
      have "True \<in> set (section_states s ! nat k)"
      proof (cases "k = 0")
        case True
        with False cyc have "\<forall>row\<in>set (section_states s). True \<in> set row"
          by (auto simp add: broken_def)
        moreover have "section_states s ! nat k \<in> set (section_states s)"
          using kn len_grid by simp
        ultimately show ?thesis by blast
      next
        case False
        then show ?thesis using eligible by (simp add: k_def n_def)
      qed
      then show ?thesis
        using kn len_grid row_len [OF kn] by (simp add: s2' s1_def n_def)
    qed
    from choose_section [of s2 k r] facts k_range(1) draw
    obtain j where j: "j < length (section_states s2 ! nat k)"
      "section_states s2 ! nat k ! j"
      "JNum (int j) = random_choice (possible (section_states s2 ! nat k)) r"
      "(case js_index (section_states s2) (section_set s2) of
               None \<Rightarrow> (Throws TypeError, s2)
             | Some row \<Rightarrow>
                 (let s3 = s2\<lparr>section_pos := random_choice (possible row) r\<rparr>;
                      s4 = s3\<lparr>section_states :=
                              mark_visited (section_states s3) (section_set s3) (section_pos s3)\<rparr>
                  in (nowPlaying s4, s4)))
           = (Returns (SectionRef (nat k) j),
              s2\<lparr>section_pos := JNum (int j),
                 section_states := (section_states s2)
                   [nat k := (section_states s2 ! nat k)[j := False]]\<rparr>)"
      by blast
    have "moveToSucessorState L r s = (Returns (SectionRef (nat k) j),
              s2\<lparr>section_pos := JNum (int j),
                 section_states := (section_states s2)
                   [nat k := (section_states s2 ! nat k)[j := False]]\<rparr>)"
      using unfold playing j(4) by simp
    with j(1-3) facts playing show ?thesis by auto
  qed
  show ?thesis
    unfolding Let_def
    using main unfolding s2_def broken_def s1_def k_def n_def .
qed

theorem moveToSucessorState_steps_witness:
  "moveToSucessorState no_listeners 0 (demo_shuffle\<lparr>section_states := [[False, True], [False]]\<rparr>)
   = (Returns (SectionRef 0 0),
      demo_shuffle\<lparr>section_states := [[False, True], [True]], section_set := JNum 0\<rparr>)"
proof -
  let ?s = "demo_shuffle\<lparr>section_states := [[False, True], [False]]\<rparr>"
  have c': "cycleExists [[False, True], [False]] = Inr False"
    by (simp add: cycleExists_def)
  have rc: "random_choice (possible [True, True]) 0 = JNum 0"
    by (simp add: random_choice_def random_index_def possible_def js_round_def)
  have "let k = (1 + 1) mod int (length (sections ?s));
             s1 = ?s\<lparr>section_set := JNum k\<rparr>;
             broken = (k = 0 \<and> cycleExists (section_states ?s) = Inr False);
             s2 = (if broken
                   then (trigger no_listeners EvFullcycle s1)
                          \<lparr>section_states := map (map (\<lambda>t. True)) (sections (trigger no_listeners EvFullcycle s1))\<rparr>
                   else s1)
         in if state s2 \<noteq> Playing
            then moveToSucessorState no_listeners 0 ?s = (Returns NullRef, s2)
            else \<exists>j<length (section_states s2 ! nat k).
                   section_states s2 ! nat k ! j
                 \<and> JNum (int j) = random_choice (possible (section_states s2 ! nat k)) 0
                 \<and> nat k < length (sections s2) \<and> j < length (sections s2 ! nat k)
                 \<and> moveToSucessorState no_listeners 0 ?s
                   = (Returns (SectionRef (nat k) j),
                      s2\<lparr>section_pos := JNum (int j),
                         section_states := (section_states s2)
                           [nat k := (section_states s2 ! nat k)[j := False]]\<rparr>)"
    by (rule moveToSucessorState_steps)
       (simp_all add: demo_shuffle_def trigger_def no_listeners_def)
  then show ?thesis
    by (auto simp add: c' rc Let_def trigger_def no_listeners_def demo_shuffle_def)
qed

section \<open>The weighted choice\<close>

lemma sum_js_eq: "sum_js list = sum_list list"
proof -
  have "foldl (\<lambda>total x. total + x) a xs = a + sum_list xs" for a :: real and xs
    by (induction xs arbitrary: a) simp_all
  then show ?thesis by (simp add: sum_js_def)
qed

lemma bias_walk_first:
  "bias_walk ws acc m i = Some k \<Longrightarrow>
     i \<le> k \<and> k < i + length ws
     \<and> m \<le> acc + sum_list (take (Suc (k - i)) ws)
     \<and> (\<forall>j<k - i. acc + sum_list (take (Suc j) ws) < m)"
proof (induction ws acc m i rule: bias_walk.induct)
  case (1 accumulation magicnumber i)
  then show ?case by simp
next
  case (2 w ws accumulation magicnumber i)
  show ?case
  proof (cases "accumulation + w \<ge> magicnumber")
    case True
    with "2.prems" show ?thesis by simp
  next
    case False
    with "2.prems" have rec: "bias_walk ws (accumulation + w) magicnumber (Suc i) = Some k"
      by simp
    from "2.IH" [OF False rec] have ih:
      "Suc i \<le> k" "k < Suc i + length ws"
      "magicnumber \<le> accumulation + w + sum_list (take (Suc (k - Suc i)) ws)"
      "\<forall>j<k - Suc i. accumulation + w + sum_list (take (Suc j) ws) < magicnumber"
      by simp_all
    have ki: "k - i = Suc (k - Suc i)" using ih(1) by simp
    have "\<forall>j<k - i. accumulation + sum_list (take (Suc j) (w # ws)) < magicnumber"
    proof (intro allI impI)
      fix j assume j: "j < k - i"
      show "accumulation + sum_list (take (Suc j) (w # ws)) < magicnumber"
      proof (cases j)
        case 0
        then show ?thesis using False by simp
      next
        case (Suc j')
        then have "j' < k - Suc i" using j ki by simp
        with ih(4) show ?thesis using Suc by (simp add: add.assoc)
      qed
    qed
    then show ?thesis using ih(1-3) ki by (simp add: add.assoc)
  qed
qed

lemma bias_walk_finds:
  "ws \<noteq> [] \<Longrightarrow> m \<le> acc + sum_list ws \<Longrightarrow> \<exists>k. bias_walk ws acc m i = Some k"
proof (induction ws acc m i rule: bias_walk.induct)
  case (1 accumulation magicnumber i)
  then show ?case by simp
next
  case (2 w ws accumulation magicnumber i)
  show ?case
  proof (cases "accumulation + w \<ge> magicnumber")
    case True
    then show ?thesis by simp
  next
    case False
    have "ws \<noteq> []"
    proof
      assume "ws = []"
      with "2.prems"(2) False show False by simp
    qed
    moreover have "magicnumber \<le> accumulation + w + sum_list ws"
      using "2.prems"(2) by (simp add: add.assoc)
    ultimately show ?thesis using "2.IH" [OF False] False by simp
  qed
qed

lemma biased_random_index_positive:
  assumes total: "0 < sum_list weights" and draw: "0 \<le> r" "r < 1"
  shows "\<exists>k<length weights. biased_random_index weights r r' = JNum (int k)
           \<and> r * sum_list weights \<le> sum_list (take (Suc k) weights)
           \<and> (\<forall>j<k. sum_list (take (Suc j) weights) < r * sum_list weights)"
proof -
  have ne: "weights \<noteq> []" using total by auto
  have "r * sum_list weights \<le> 0 + sum_list weights"
    using total draw by (simp add: mult_left_le_one_le)
  from bias_walk_finds [OF ne this] obtain k where
    k: "bias_walk weights 0 (r * sum_list weights) 0 = Some k" by blast
  from bias_walk_first [OF k] have
    "k < length weights" "r * sum_list weights \<le> sum_list (take (Suc k) weights)"
    "\<forall>j<k. sum_list (take (Suc j) weights) < r * sum_list weights"
    by simp_all
  moreover have "biased_random_index weights r r' = JNum (int k)"
    using ne total k by (simp add: biased_random_index_def sum_js_eq Let_def)
  ultimately show ?thesis by blast
qed

lemma biased_random_index_in_range:
  assumes "weights \<noteq> []" and "0 \<le> r" "r < 1" and "0 \<le> r'" "r' < 1"
  shows "\<exists>k<length weights. biased_random_index weights r r' = JNum (int k)"
proof (cases "sum_js weights = 0")
  case True
  then have "biased_random_index weights r r' = random_index weights r"
    using assms(1) by (simp add: biased_random_index_def)
  with random_index_range [OF assms(2,3,1)] show ?thesis by simp
next
  case False
  show ?thesis
  proof (cases "bias_walk weights 0 (r * sum_js weights) 0")
    case None
    then have "biased_random_index weights r r' = random_index weights r'"
      using assms(1) False by (simp add: biased_random_index_def Let_def)
    with random_index_range [OF assms(4,5,1)] show ?thesis by simp
  next
    case (Some k)
    then have "biased_random_index weights r r' = JNum (int k)"
      using assms(1) False by (simp add: biased_random_index_def Let_def)
    moreover have "k < length weights" using bias_walk_first [OF Some] by simp
    ultimately show ?thesis by blast
  qed
qed

lemma biased_random_index_empty: "biased_random_index [] r r' = JLibrary"
  by (simp add: biased_random_index_def)

text \<open>
  C4: the fallback for weights that are all zero is \<open>random_index\<close>, which rounds
  \<open>r * (n - 1)\<close>. For three zero weights the draws that yield index 1 are exactly those
  of \<open>[1/4, 3/4)\<close>, half of the unit interval and not a third of it: the index is not
  uniformly distributed.
\<close>

theorem biased_random_index_zero_weights_middle:
  "{r. 0 \<le> r \<and> r < 1 \<and> biased_random_index [0, 0, 0] r r' = JNum 1} = {1 / 4 ..< 3 / 4}"
proof -
  have "biased_random_index [0, 0, 0] r r' = JNum \<lfloor>r * 2 + 1 / 2\<rfloor>" for r
    by (simp add: biased_random_index_def sum_js_def random_index_def js_round_def)
  moreover have "(\<lfloor>r * 2 + 1 / 2\<rfloor> = 1) = (1 / 4 \<le> r \<and> r < 3 / 4)" for r :: real
    by (simp add: floor_eq_iff) linarith
  ultimately show ?thesis by auto
qed

section \<open>The priority lock of a fade\<close>

lemma run_callbacks_promises:
  "promises (snd (foldl (\<lambda>w cb. run_callback L cb w) (s, e) cbs)) = promises e"
proof (induction cbs arbitrary: s e)
  case Nil
  show ?case by simp
next
  case (Cons cb cbs)
  obtain s' e' where step: "run_callback L cb (s, e) = (s', e')" by (cases "run_callback L cb (s, e)")
  have "promises e' = promises e"
    using step by (cases cb) (auto simp add: clearInterval_def)
  with Cons.IH [of s' e'] step show ?case by simp
qed

lemma run_reject_callbacks_gain:
  "gain (fst (foldl (\<lambda>w cb. run_callback L cb w) (s, e) (filter on_reject cbs))) = gain s"
proof (induction cbs arbitrary: s e)
  case Nil
  show ?case by simp
next
  case (Cons cb cbs)
  show ?case
  proof (cases cb)
    case (DoneApplyVolume to normalizer)
    then show ?thesis using Cons.IH by simp
  next
    case AlwaysClearFading
    then show ?thesis using Cons.IH [of "s\<lparr>fading_priority := None, fading_promise := None\<rparr>" e] by simp
  next
    case (AlwaysClearInterval i)
    then show ?thesis using Cons.IH [of s "clearInterval i e"] by simp
  qed
qed

lemma settle_pending:
  assumes "p < length (promises e)" "dstate (promises e ! p) = Pending"
  shows "promises (snd (settle L outcome p (s, e)))
         = (promises e)[p := (promises e ! p)\<lparr>dstate := outcome\<rparr>]"
  using assms by (simp add: settle_def Let_def run_callbacks_promises)

lemma reject_gain: "gain (fst (reject L p (s, e))) = gain s"
  by (simp add: reject_def settle_def Let_def run_reject_callbacks_gain)

lemma forEachSection_fading:
  "fading_priority (forEachSection fn s) = fading_priority s"
  "fading_promise (forEachSection fn s) = fading_promise s"
  by (cases "intro s"; simp add: forEachSection_def Let_def)+

lemma mute_fading:
  assumes "\<forall>ev st. fading_priority (L ev st) = fading_priority st \<and> fading_promise (L ev st) = fading_promise st"
  shows "fading_priority (mute L s) = fading_priority s" "fading_promise (mute L s) = fading_promise s"
  using assms by (simp_all add: mute_def trigger_def Let_def forEachSection_fading)

lemma volume_fading:
  assumes "\<forall>ev st. fading_priority (L ev st) = fading_priority st \<and> fading_promise (L ev st) = fading_promise st"
  shows "fading_priority (snd (volume L v s)) = fading_priority s"
        "fading_promise (snd (volume L v s)) = fading_promise s"
  using assms
  by (cases v; simp add: volume_def trigger_def Let_def forEachSection_fading mute_fading)+

lemma reject_fresh:
  "reject L (length (promises e)) (s, snd (new_deferred e))
   = (s, e\<lparr>promises := promises e @ [\<lparr>dstate = Rejected, dcallbacks = []\<rparr>]\<rparr>)"
  by (simp add: reject_def settle_def new_deferred_def Let_def)

lemma add_callback_pending:
  assumes "p < length (promises e)" "dstate (promises e ! p) = Pending"
  shows "add_callback L p cb (s, e)
         = (s, e\<lparr>promises := (promises e)
                    [p := (promises e ! p)\<lparr>dcallbacks := dcallbacks (promises e ! p) @ [cb]\<rparr>]\<rparr>)"
  using assms by (simp add: add_callback_def Let_def)

lemma fade_register:
  "add_callback L (length (promises e1)) AlwaysClearFading
     (add_callback L (length (promises e1)) (DoneApplyVolume to nrm) (s2, snd (new_deferred e1)))
   = (s2, e1\<lparr>promises := promises e1 @
        [\<lparr>dstate = Pending, dcallbacks = [DoneApplyVolume to nrm, AlwaysClearFading]\<rparr>]\<rparr>)"
  by (simp add: add_callback_def new_deferred_def Let_def)

lemma demo_fading_reached:
  "fade no_listeners 0 demo_fade_args (demo_shuffle, demo_env)
   = (Returns 0, demo_fading_shuffle, demo_fading_env)"
  by (simp add: fade_def assertDefined_def nvl_def Let_def split_def demo_fade_args_def
      demo_shuffle_def demo_env_def demo_fading_shuffle_def demo_fading_env_def demo_track_def
      new_deferred_def add_callback_def setInterval_def volume_def trigger_def no_listeners_def
      forEachSection_map track_isFading_def track_volume_def clamp_def)


text \<open>
  C5, as the claim states it, fails for a request that takes the fast path: a fade to the
  current gain with priority 2, made while a fade of priority 1 is in flight, rejects that
  fade and settles at once, and no lock priority is recorded when it returns.
\<close>

theorem fade_fast_path_keeps_no_lock:
  "fading_priority (fst (snd (fade no_listeners 5
       (demo_fade_args\<lparr>a_to := Given (Number 1), a_priority := Some 2\<rparr>)
       (demo_fading_shuffle, demo_fading_env)))) = None"
  by (simp add: fade_def assertDefined_def nvl_def Let_def split_def demo_fade_args_def
      demo_shuffle_def demo_fading_shuffle_def demo_fading_env_def demo_track_def
      new_deferred_def add_callback_def clearInterval_def volume_def trigger_def no_listeners_def
      forEachSection_map track_isFading_def track_volume_def clamp_def mutevol_def
      reject_def resolve_def settle_def)

text \<open>
  C5 (amended): let a fade be in flight at priority \<open>p\<close>, its deferred pending, and let a
  new request carry \<open>to\<close> and \<open>msec\<close> and the priority \<open>q\<close>. If \<open>q < p\<close>, \<open>fade\<close>
  returns a fresh, already rejected deferred and leaves the Shuffle and the fade in flight as
  they are. If \<open>q \<ge> p\<close>, it rejects the deferred of the fade in flight and takes over: on
  the ramp path its own deferred is pending and is the fade in flight, with \<open>q\<close> the lock
  priority; on the fast path (\<open>to\<close> within \<open>0.00001\<close> of the gain, or \<open>msec = 0\<close>) its
  deferred is resolved at once and no fade and no lock remain. \<open>cancelFade(c)\<close> rejects the
  fade in flight if and only if \<open>p \<le> c\<close> and does nothing otherwise. No case throws. The
  listeners are assumed not to write the lock.
\<close>

theorem fade_priority_lock:
  assumes inflight: "fading_promise s = Some old" "fading_priority s = Some p"
    and pending: "old < length (promises e)" "dstate (promises e ! old) = Pending"
    and required: "a_to args = Given (Number to)" "a_msec args = Given (Number msec)"
    and prio: "q = (case a_priority args of None \<Rightarrow> 0 | Some x \<Rightarrow> x)"
    and quiet: "\<forall>ev st. fading_priority (L ev st) = fading_priority st
                      \<and> fading_promise (L ev st) = fading_promise st"
  shows "(q < p \<longrightarrow>
            fade L now args (s, e)
            = (Returns (length (promises e)), s,
               e\<lparr>promises := promises e @ [\<lparr>dstate = Rejected, dcallbacks = []\<rparr>]\<rparr>))
       \<and> (p \<le> q \<longrightarrow>
            (\<exists>s' e'. fade L now args (s, e) = (Returns (length (promises e)), s', e')
               \<and> dstate (promises e' ! old) = Rejected
               \<and> (if (case gain s of NotANumber \<Rightarrow> False | Number g \<Rightarrow> \<bar>to - g\<bar> < 0.00001)
                     \<or> msec = 0
                  then dstate (promises e' ! length (promises e)) = Resolved
                       \<and> fading_promise s' = None \<and> fading_priority s' = None
                  else dstate (promises e' ! length (promises e)) = Pending
                       \<and> fading_promise s' = Some (length (promises e))
                       \<and> fading_priority s' = Some q)))
       \<and> (\<forall>c. cancelFade L c (s, e)
              = (if p \<le> (case c of None \<Rightarrow> 0 | Some x \<Rightarrow> x) then reject L old (s, e) else (s, e)))
       \<and> dstate (promises (snd (reject L old (s, e))) ! old) = Rejected"
proof (intro conjI impI allI)
  assume lt: "q < p"
  show "fade L now args (s, e)
        = (Returns (length (promises e)), s,
           e\<lparr>promises := promises e @ [\<lparr>dstate = Rejected, dcallbacks = []\<rparr>]\<rparr>)"
    using lt inflight required prio [symmetric]
    by (simp add: fade_def assertDefined_def Let_def split_def reject_fresh
        new_deferred_def [THEN arg_cong, of fst] )
next
  fix c
  show "cancelFade L c (s, e)
        = (if p \<le> (case c of None \<Rightarrow> 0 | Some x \<Rightarrow> x) then reject L old (s, e) else (s, e))"
    using inflight by (simp add: cancelFade_def Let_def)
next
  show "dstate (promises (snd (reject L old (s, e))) ! old) = Rejected"
    using pending by (simp add: reject_def settle_pending)
next
  assume ge: "p \<le> q"
  define nrm where "nrm = (case a_normalizer args of None \<Rightarrow> 1 | Some n \<Rightarrow> n)"
  define frm where "frm = nvl (a_from args) (Given (gain s))"
  define nw where "nw = length (promises e)"
  obtain s1 e1 where w1: "reject L old (s, e) = (s1, e1)" by (cases "reject L old (s, e)")
  have p1: "promises e1 = (promises e)[old := (promises e ! old)\<lparr>dstate := Rejected\<rparr>]"
    using settle_pending [OF pending, of L Rejected s] w1 by (simp add: reject_def)
  have len1: "length (promises e1) = nw" by (simp add: p1 nw_def)
  have g1: "gain s1 = gain s" using reject_gain [of L old s e] w1 by simp
  define s2 where "s2 = s1\<lparr>fading_priority := Some q\<rparr>"
  have g2: "gain s2 = gain s" by (simp add: s2_def g1)
  define e4 where "e4 = e1\<lparr>promises := promises e1 @
        [\<lparr>dstate = Pending,
          dcallbacks = [DoneApplyVolume (Given (Number to)) nrm, AlwaysClearFading]\<rparr>]\<rparr>"
  have reg: "add_callback L nw AlwaysClearFading
     (add_callback L nw (DoneApplyVolume (Given (Number to)) nrm) (s2, snd (new_deferred e1)))
     = (s2, e4)"
    using fade_register [of L e1 "Given (Number to)" nrm s2] by (simp add: len1 e4_def)
  define fast where
    "fast = (num_less (num_abs (num_sub (Number to) (gain s))) (Number 0.00001) \<or> msec = 0)"
  have fast_eq:
    "fast = ((case gain s of NotANumber \<Rightarrow> False | Number g \<Rightarrow> \<bar>to - g\<bar> < 0.00001) \<or> msec = 0)"
    by (cases "gain s") (simp_all add: fast_def)
  have fst_new: "fst (new_deferred e1) = nw" by (simp add: new_deferred_def len1)
  have old_nw: "old < nw" using pending(1) by (simp add: nw_def)
  show "\<exists>s' e'. fade L now args (s, e) = (Returns (length (promises e)), s', e')
               \<and> dstate (promises e' ! old) = Rejected
               \<and> (if (case gain s of NotANumber \<Rightarrow> False | Number g \<Rightarrow> \<bar>to - g\<bar> < 0.00001)
                     \<or> msec = 0
                  then dstate (promises e' ! length (promises e)) = Resolved
                       \<and> fading_promise s' = None \<and> fading_priority s' = None
                  else dstate (promises e' ! length (promises e)) = Pending
                       \<and> fading_promise s' = Some (length (promises e))
                       \<and> fading_priority s' = Some q)"
  proof (cases fast)
    case True
    define s5 where "s5 = snd (volume L (Some (mutevol s2 (Number (to * nrm)))) s2)"
    obtain s6 e6 where w6: "resolve L nw (s5, e4) = (s6, e6)" by (cases "resolve L nw (s5, e4)")
    have fade_eq: "fade L now args (s, e) = (Returns nw, s6, e6)"
      using ge inflight required prio [symmetric] True [unfolded fast_def]
      by (simp add: fade_def assertDefined_def Let_def split_def w1 fst_new reg
          s2_def [symmetric] nrm_def [symmetric] g2 s5_def [symmetric] w6)
    have pend4: "nw < length (promises e4)" "dstate (promises e4 ! nw) = Pending"
      by (simp_all add: e4_def len1 [symmetric])
    have p6: "promises e6 = (promises e4)[nw := (promises e4 ! nw)\<lparr>dstate := Resolved\<rparr>]"
      using settle_pending [OF pend4, of L Resolved s5] w6 by (simp add: resolve_def)
    have cleared: "fading_promise s6 = None \<and> fading_priority s6 = None"
      using w6 pend4 by (auto simp add: resolve_def settle_def Let_def e4_def len1 [symmetric])
    have "dstate (promises e6 ! old) = Rejected"
      using old_nw pending(1) by (simp add: p6 e4_def p1 nth_append len1 nw_def)
    moreover have "dstate (promises e6 ! nw) = Resolved"
      using pend4 by (simp add: p6)
    ultimately show ?thesis using fade_eq cleared True fast_eq by (simp add: nw_def)
  next
    case False
    define s5 where "s5 = snd (volume L (Some (num_mul (to_num frm) (Number nrm))) s2)"
    define fn where "fn = \<lparr>st_promise = nw, st_from = frm,
                               st_delta = num_sub (Number to) (to_num frm),
                               st_msec = Given (Number msec), st_start = now, st_normalizer = nrm,
                               st_easing = a_easing args\<rparr>"
    define e5 where "e5 = snd (setInterval fn e4)"
    define s6 where "s6 = s5\<lparr>fading_promise := Some nw\<rparr>"
    obtain s7 e7 where w7:
      "add_callback L nw (AlwaysClearInterval (fst (setInterval fn e4))) (s6, e5) = (s7, e7)"
      by (cases "add_callback L nw (AlwaysClearInterval (fst (setInterval fn e4))) (s6, e5)")
    have fade_eq: "fade L now args (s, e) = (Returns nw, s7, e7)"
      using ge inflight required prio [symmetric] False [unfolded fast_def]
      by (simp add: fade_def assertDefined_def Let_def split_def w1 fst_new reg
          s2_def [symmetric] nrm_def [symmetric] frm_def [symmetric] g2 s5_def [symmetric]
          fn_def [symmetric] e5_def [symmetric] s6_def [symmetric] w7)
    have p5: "promises e5 = promises e4" by (simp add: e5_def setInterval_def)
    have pend5: "nw < length (promises e5)" "dstate (promises e5 ! nw) = Pending"
      by (simp_all add: p5 e4_def len1 [symmetric])
    from add_callback_pending [OF pend5, of L "AlwaysClearInterval (fst (setInterval fn e4))" s6] w7
    have s7: "s7 = s6"
      and p7: "promises e7 = (promises e5)[nw := (promises e5 ! nw)
                 \<lparr>dcallbacks := dcallbacks (promises e5 ! nw)
                      @ [AlwaysClearInterval (fst (setInterval fn e4))]\<rparr>]"
      by simp_all
    have "fading_priority s5 = Some q"
      using volume_fading(1) [OF quiet, of "Some (num_mul (to_num frm) (Number nrm))" s2]
      by (simp add: s5_def s2_def)
    then have lock: "fading_priority s7 = Some q \<and> fading_promise s7 = Some nw"
      by (simp add: s7 s6_def)
    have "dstate (promises e7 ! old) = Rejected"
      using old_nw pending(1) by (simp add: p7 p5 e4_def p1 nth_append len1 nw_def)
    moreover have "dstate (promises e7 ! nw) = Pending"
      using pend5 by (simp add: p7)
    ultimately show ?thesis using fade_eq lock False fast_eq by (simp add: nw_def)
  qed
qed

theorem fade_priority_lock_witness:
  "fading_priority (fst (snd (fade no_listeners 5 (demo_fade_args\<lparr>a_priority := Some 2\<rparr>)
       (demo_fading_shuffle, demo_fading_env)))) = Some 2
   \<and> dstate (promises (snd (snd (fade no_listeners 5 (demo_fade_args\<lparr>a_priority := Some 2\<rparr>)
       (demo_fading_shuffle, demo_fading_env)))) ! 0) = Rejected"
proof -
  have q: "(2::int) = (case a_priority (demo_fade_args\<lparr>a_priority := Some 2\<rparr>) of
                         None \<Rightarrow> 0 | Some x \<Rightarrow> x)"
    by simp
  have quiet: "\<forall>ev st. fading_priority (no_listeners ev st) = fading_priority st
                      \<and> fading_promise (no_listeners ev st) = fading_promise st"
    by (simp add: no_listeners_def)
  have "(1::int) \<le> 2 \<longrightarrow>
            (\<exists>s' e'. fade no_listeners 5 (demo_fade_args\<lparr>a_priority := Some 2\<rparr>)
                        (demo_fading_shuffle, demo_fading_env)
                      = (Returns (length (promises demo_fading_env)), s', e')
               \<and> dstate (promises e' ! 0) = Rejected
               \<and> (if (case gain demo_fading_shuffle of NotANumber \<Rightarrow> False
                        | Number g \<Rightarrow> \<bar>0 - g\<bar> < 0.00001) \<or> (2500::real) = 0
                  then dstate (promises e' ! length (promises demo_fading_env)) = Resolved
                       \<and> fading_promise s' = None \<and> fading_priority s' = None
                  else dstate (promises e' ! length (promises demo_fading_env)) = Pending
                       \<and> fading_promise s' = Some (length (promises demo_fading_env))
                       \<and> fading_priority s' = Some 2))"
    using fade_priority_lock [where s = demo_fading_shuffle and old = 0 and p = 1
        and e = demo_fading_env and args = "demo_fade_args\<lparr>a_priority := Some 2\<rparr>"
        and to = 0 and msec = 2500 and q = 2 and L = no_listeners and now = 5, OF _ _ _ _ _ _ q quiet]
    by (simp add: demo_fading_shuffle_def demo_fading_env_def demo_fade_args_def)
  then show ?thesis
    by (auto simp add: demo_fading_shuffle_def demo_shuffle_def)
qed

section \<open>Configuration errors\<close>

lemma assertDefined_returns:
  "x \<noteq> LibraryObject \<Longrightarrow> assertDefined x = Returns x"
  by (simp add: assertDefined_def)

lemma nvl_missing: "nvl Missing ifnull = Missing"
  by (simp add: nvl_def)

lemma play_empty_sections:
  "sections s = [] \<Longrightarrow>
     play L r (s, e)
     = (Returns (), s,
        if state s = Playing then e
        else e\<lparr>console := console e @
          [''There are no sections included in this sonic shuffle. Unable to initiate play.'']\<rparr>)"
  by (simp add: play_def Let_def)

text \<open>
  C7: \<open>fade\<close> without \<open>to\<close> or without \<open>msec\<close> reports nothing and changes the
  Shuffle. \<open>assertDefined\<close> compares its argument with the library object, so for a missing
  argument it returns and \<open>fade\<close> goes on. On a Shuffle with no fade in flight,
  \<open>fade({msec: 2500, priority: 1})\<close> returns a pending promise, having set the gain to
  \<open>NaN\<close>, recorded the lock priority 1 and the promise as the fade in flight and started an
  interval timer; \<open>fade({from: 1, to: 0, priority: 1})\<close> returns a pending promise and
  leaves it as the fade in flight.
\<close>

theorem fade_without_to_goes_on:
  "assertDefined (a_to (demo_fade_args\<lparr>a_from := Missing, a_to := Missing\<rparr>)) = Returns Missing
   \<and> fst (fade no_listeners 0 (demo_fade_args\<lparr>a_from := Missing, a_to := Missing\<rparr>)
            (demo_shuffle, demo_env)) = Returns 0
   \<and> gain (fst (snd (fade no_listeners 0 (demo_fade_args\<lparr>a_from := Missing, a_to := Missing\<rparr>)
            (demo_shuffle, demo_env)))) = NotANumber
   \<and> fading_priority (fst (snd (fade no_listeners 0
            (demo_fade_args\<lparr>a_from := Missing, a_to := Missing\<rparr>) (demo_shuffle, demo_env)))) = Some 1
   \<and> fading_promise (fst (snd (fade no_listeners 0
            (demo_fade_args\<lparr>a_from := Missing, a_to := Missing\<rparr>) (demo_shuffle, demo_env)))) = Some 0
   \<and> snd (snd (fade no_listeners 0 (demo_fade_args\<lparr>a_from := Missing, a_to := Missing\<rparr>)
            (demo_shuffle, demo_env)))
     = \<lparr>promises = [\<lparr>dstate = Pending,
                       dcallbacks = [DoneApplyVolume Missing 1, AlwaysClearFading,
                                     AlwaysClearInterval 0]\<rparr>],
        intervals = [(0, \<lparr>st_promise = 0, st_from = Missing, st_delta = NotANumber,
                           st_msec = Given (Number 2500), st_start = 0, st_normalizer = 1,
                           st_easing = None\<rparr>)],
        next_timer = 1, console = []\<rparr>
   \<and> fst (fade no_listeners 0 (demo_fade_args\<lparr>a_msec := Missing\<rparr>) (demo_shuffle, demo_env))
     = Returns 0
   \<and> fading_promise (fst (snd (fade no_listeners 0 (demo_fade_args\<lparr>a_msec := Missing\<rparr>)
            (demo_shuffle, demo_env)))) = Some 0
   \<and> dstate (promises (snd (snd (fade no_listeners 0 (demo_fade_args\<lparr>a_msec := Missing\<rparr>)
            (demo_shuffle, demo_env)))) ! 0) = Pending"
  by (simp add: fade_def assertDefined_def nvl_def Let_def split_def demo_fade_args_def
      demo_shuffle_def demo_env_def demo_track_def
      new_deferred_def add_callback_def setInterval_def volume_def trigger_def no_listeners_def
      forEachSection_map track_isFading_def track_volume_def clamp_def)

section \<open>Switching pieces\<close>






























end
